theory Spec2Isabelle
  imports Main "HOL-Library.Word" "HOL-Library.Signed_Division"
begin

unbundle bit_operations_syntax

section \<open>Types and fields\<close>

text \<open>
  The Arrow library (arrow/type.h, arrow/array.h) is not among the sources; writer.cc uses
  its types through a handful of accessors.
  Modelled from the spec: section 3 (DATA MODEL). A field has a name, a nullable flag and
  a nested type; a type has an id and child fields. The ids are those of
  \<open>arrow::Type::type\<close>. Members of the C++ classes, written \<open>name_\<close> in the source,
  are written \<open>name'\<close>.
\<close>

datatype type_id =
    NA | BOOL | UINT8 | INT8 | UINT16 | INT16 | UINT32 | INT32 | UINT64 | INT64
  | HALF_FLOAT | FLOAT | DOUBLE | STRING | BINARY | FIXED_SIZE_BINARY | DATE32 | DATE64
  | TIMESTAMP | TIME32 | TIME64 | INTERVAL | DECIMAL | LIST | STRUCT | UNION
  | DICTIONARY | MAP | EXTENSION | FIXED_SIZE_LIST

datatype DataType = DataType (type_id_of: type_id) (children: "Field list")
and Field = Field (field_name: string) (field_type: DataType) (nullable: bool)

definition num_children :: "DataType \<Rightarrow> nat" where
  "num_children t = length (children t)"

definition child :: "DataType \<Rightarrow> nat \<Rightarrow> Field" where
  "child t i = children t ! i"

lemma size_child: "i < num_children (field_type f) \<Longrightarrow> size (child (field_type f) i) < size f"
proof -
  assume a: "i < num_children (field_type f)"
  obtain n t b where f: "f = Field n t b" by (cases f)
  obtain k cs where t: "t = DataType k cs" by (cases t)
  from a f t have "cs ! i \<in> set cs" by (simp add: num_children_def)
  then have "size (cs ! i) \<le> size_list size cs" by (simp add: size_list_estimation')
  then show ?thesis by (simp add: f t child_def)
qed

lemma size_child_type: "i < num_children t \<Longrightarrow> size (field_type (child t i)) < size t"
proof -
  assume a: "i < num_children t"
  obtain k cs where t: "t = DataType k cs" by (cases t)
  obtain n t' b where c: "cs ! i = Field n t' b" by (cases "cs ! i")
  from a t have "cs ! i \<in> set cs" by (simp add: num_children_def)
  then have "size (cs ! i) \<le> size_list size cs" by (simp add: size_list_estimation')
  then show ?thesis by (simp add: t c child_def)
qed

section \<open>Statuses\<close>

text \<open>
  The writer (cpp/src/parquet/arrow/writer.cc) returns \<open>arrow::Status\<close> everywhere.
  A status is either OK or an error with a code and a message. \<open>Status::Invalid(...)\<close>
  and \<open>Status::NotImplemented(...)\<close> are variadic: the message is the concatenation
  of the printed arguments. The printing of types and integers is the Arrow library's
  and not part of writer.cc, so a message is kept as the list of its arguments: string
  literals, types and integers.
  A \<open>Status\<close> is \<open>OK\<close> or an error. A function that also writes through
  output pointers has the result type \<open>error + 'a\<close>: \<open>Inr\<close> is \<open>Status::OK()\<close>
  together with the values written.
\<close>

datatype TimeUnit = SECOND | MILLI | MICRO | NANO

record TimestampType =
  unit :: TimeUnit
  timezone :: string

datatype msg_part =
    Str string
  | PrintedTimestampType TimestampType
  | PrintedInt64 "64 word"
  | PrintedDataType DataType

datatype error =
    Invalid "msg_part list"
  | NotImplemented "msg_part list"
  | Caught string
  | OutOfBounds

text \<open>
  \<open>Caught e\<close> is the status that \<open>PARQUET_CATCH_NOT_OK\<close> builds from an
  exception thrown by the underlying Parquet writer. \<open>OutOfBounds\<close> marks a read or
  write outside a buffer, where the C++ has no defined result; no status of the source
  corresponds to it.
\<close>

type_synonym Status = "error option"

abbreviation OK :: Status where
  "OK \<equiv> None"

definition bindE :: "error + 'a \<Rightarrow> ('a \<Rightarrow> error + 'b) \<Rightarrow> error + 'b" where
  "bindE m f = (case m of Inl e \<Rightarrow> Inl e | Inr x \<Rightarrow> f x)"

section \<open>FileWriter::Impl::Close\<close>

text \<open>
  The underlying \<open>ParquetFileWriter\<close> and \<open>RowGroupWriter\<close> are external. Their state
  is a value of type \<open>'w\<close>; each of their \<open>Close\<close> methods maps the state to a new state
  and may throw, which is the \<open>Some\<close> message.
\<close>

record 'w underlying =
  RowGroupWriter_Close :: "'w \<Rightarrow> string option \<times> 'w"
  ParquetFileWriter_Close :: "'w \<Rightarrow> string option \<times> 'w"

record 'w Impl =
  writer' :: 'w
  row_group_writer' :: "nat option"
  closed' :: bool

definition Impl_Close :: "'w underlying \<Rightarrow> 'w Impl \<Rightarrow> Status \<times> 'w Impl" where
  "Impl_Close u s =
     (if \<not> closed' s then
        let s1 = s\<lparr>closed' := True\<rparr>;
            r1 = (if row_group_writer' s1 \<noteq> None
                  then RowGroupWriter_Close u (writer' s1)
                  else (None, writer' s1))
        in (case r1 of
              (Some e, w1) \<Rightarrow> (Some (Caught e), s1\<lparr>writer' := w1\<rparr>)
            | (None, w1) \<Rightarrow>
                (case ParquetFileWriter_Close u w1 of
                   (Some e, w2) \<Rightarrow> (Some (Caught e), s1\<lparr>writer' := w2\<rparr>)
                 | (None, w2) \<Rightarrow> (OK, s1\<lparr>writer' := w2\<rparr>)))
      else (OK, s))"

section \<open>Timestamp policy: ArrowColumnWriter::WriteTimestamps\<close>

text \<open>
  \<open>ArrowWriterProperties\<close> is declared in writer.h, which is not among the sources.
  Modelled from the spec: the three configuration options of section 6, with the defaults
  given there (\<open>support_deprecated_int96_timestamps\<close> false, no coercion unit,
  \<open>truncated_timestamps_allowed\<close> false), and the builder calls used by writer.cc.
\<close>

record ArrowWriterProperties =
  support_deprecated_int96_timestamps :: bool
  coerce_timestamps_enabled :: bool
  coerce_timestamps_unit :: TimeUnit
  truncated_timestamps_allowed :: bool

definition Builder :: ArrowWriterProperties where
  "Builder = \<lparr> support_deprecated_int96_timestamps = False,
               coerce_timestamps_enabled = False,
               coerce_timestamps_unit = SECOND,
               truncated_timestamps_allowed = False \<rparr>"

definition coerce_timestamps :: "TimeUnit \<Rightarrow> ArrowWriterProperties \<Rightarrow> ArrowWriterProperties" where
  "coerce_timestamps u p = p\<lparr>coerce_timestamps_enabled := True, coerce_timestamps_unit := u\<rparr>"

definition disallow_truncated_timestamps :: "ArrowWriterProperties \<Rightarrow> ArrowWriterProperties" where
  "disallow_truncated_timestamps p = p\<lparr>truncated_timestamps_allowed := False\<rparr>"

datatype ParquetVersion = PARQUET_1_0 | PARQUET_2_0

text \<open>
  \<open>WriteTimestamps\<close> ends in a tail call in every branch. The model returns which
  function is called: the Int96 or the Int64 instance of \<open>TypedWriteBatch\<close>, or
  \<open>WriteTimestampsCoerce\<close> with the properties passed to it.
\<close>

datatype timestamp_call =
    TypedWriteBatch_Int96_Timestamp
  | TypedWriteBatch_Int64_Timestamp
  | Call_WriteTimestampsCoerce ArrowWriterProperties

definition WriteTimestamps ::
  "ArrowWriterProperties \<Rightarrow> ParquetVersion \<Rightarrow> TimestampType \<Rightarrow> timestamp_call" where
  "WriteTimestamps properties version source_type =
     (if support_deprecated_int96_timestamps properties then TypedWriteBatch_Int96_Timestamp
      else if coerce_timestamps_enabled properties then
        (if unit source_type = coerce_timestamps_unit properties
         then TypedWriteBatch_Int64_Timestamp
         else Call_WriteTimestampsCoerce properties)
      else if version = PARQUET_1_0 \<and> unit source_type = NANO then
        Call_WriteTimestampsCoerce (disallow_truncated_timestamps (coerce_timestamps MICRO Builder))
      else if unit source_type = SECOND then
        Call_WriteTimestampsCoerce (coerce_timestamps MILLI Builder)
      else TypedWriteBatch_Int64_Timestamp)"

section \<open>Arrays\<close>

text \<open>
  Modelled from the spec: section 3 (DATA MODEL). An array has a length, an offset into
  its backing storage, an optional validity bitmap (absent means no nulls) and a null
  count; a list array adds an offsets vector indexed from the array's offset, and a
  child array. Lengths, offsets and counts are natural numbers; loop counters are natural
  numbers or integers without a bound. Values that the source stores or casts at a width
  (\<open>int16_t\<close> levels, \<open>int32_t\<close> array offsets, \<open>int64_t\<close> timestamps) have that
  width.
\<close>

record ArrayData =
  array_length :: nat
  array_offset :: nat
  null_bitmap_data :: "8 word list option"
  null_count :: nat

datatype unsupported_array =
  Map | FixedSizeList | Struct | Union | Dictionary | Extension

text \<open>
  An array of values type \<open>'v\<close>: a flat array (every class derived from
  \<open>arrow::FlatArray\<close>) with its value buffers, a list array with its whole offsets
  buffer (\<open>raw_value_offsets\<close> before the array offset is added) and its child, or an
  array of one of the six classes for which \<open>LevelBuilder\<close> has a
  \<open>NOT_IMPLEMENTED_VISIT\<close>.
\<close>

datatype 'v Array =
    FlatArray DataType ArrayData 'v
  | ListArray DataType ArrayData "int list" "'v Array"
  | OtherArray unsupported_array DataType ArrayData

fun data :: "'v Array \<Rightarrow> ArrayData" where
  "data (FlatArray t d v) = d"
| "data (ListArray t d offs c) = d"
| "data (OtherArray k t d) = d"

fun array_type :: "'v Array \<Rightarrow> DataType" where
  "array_type (FlatArray t d v) = t"
| "array_type (ListArray t d offs c) = t"
| "array_type (OtherArray k t d) = t"

fun with_data :: "'v Array \<Rightarrow> ArrayData \<Rightarrow> 'v Array" where
  "with_data (FlatArray t d v) d' = FlatArray t d' v"
| "with_data (ListArray t d offs c) d' = ListArray t d' offs c"
| "with_data (OtherArray k t d) d' = OtherArray k t d'"

text \<open>
  \<open>BitUtil::GetBit(bits, i)\<close> reads bit \<open>i mod 8\<close> of byte \<open>i div 8\<close>. A read past the
  end of the buffer has no defined result in C++ and is \<open>None\<close> here.
\<close>

definition GetBit :: "8 word list \<Rightarrow> nat \<Rightarrow> bool option" where
  "GetBit bits i = (if i div 8 < length bits then Some (bit (bits ! (i div 8)) (i mod 8)) else None)"

text \<open>
  Modelled from the spec: \<open>Array::IsNull(i)\<close> and \<open>Array::IsValid(i)\<close>. The validity
  bitmap is optional and its absence means no nulls; when it is present, bit
  \<open>offset + i\<close> says whether slot \<open>i\<close> holds a value.
\<close>

definition IsValid :: "ArrayData \<Rightarrow> nat \<Rightarrow> bool" where
  "IsValid d i = (case null_bitmap_data d of
                    None \<Rightarrow> True
                  | Some bits \<Rightarrow> GetBit bits (array_offset d + i) = Some True)"

definition IsNull :: "ArrayData \<Rightarrow> nat \<Rightarrow> bool" where
  "IsNull d i = (\<not> IsValid d i)"

text \<open>
  Modelled from the spec: the null count of a range of slots is the number of slots whose
  validity bit is clear, and 0 without a bitmap.
\<close>

definition count_nulls :: "8 word list option \<Rightarrow> nat \<Rightarrow> nat \<Rightarrow> nat" where
  "count_nulls bm off n =
     (case bm of
        None \<Rightarrow> 0
      | Some bits \<Rightarrow> length (filter (\<lambda>i. GetBit bits (off + i) \<noteq> Some True) [0..<n]))"

text \<open>
  Modelled from the spec: \<open>Array::Slice(offset, length)\<close>. The slice shares the buffers,
  moves the array offset forward and clamps the length to what is left; its null count is
  that of the slots it keeps.
\<close>

definition Slice :: "'v Array \<Rightarrow> nat \<Rightarrow> nat \<Rightarrow> 'v Array" where
  "Slice a off n =
     (let d = data a;
          n' = min (array_length d - off) n
      in with_data a (d\<lparr> array_length := n',
                         array_offset := array_offset d + off,
                         null_count := (if null_count d = 0 then 0
                                        else count_nulls (null_bitmap_data d) (array_offset d + off) n') \<rparr>))"

section \<open>Chunked writes: ArrowColumnWriter::Write(const ChunkedArray&, offset, size)\<close>

text \<open>
  A chunked array is the list of its chunks.
  Modelled from the spec: \<open>ChunkedArray::length()\<close> is the sum of the chunk lengths.
\<close>

definition ChunkedArray_length :: "'v Array list \<Rightarrow> nat" where
  "ChunkedArray_length chunks = sum_list (map (\<lambda>c. array_length (data c)) chunks)"

text \<open>
  The first loop of \<open>Write\<close>: it skips whole chunks until \<open>offset\<close> is reached and
  returns \<open>(chunk_index, absolute_position, chunk_offset)\<close> as they are after the loop.
  \<open>offset\<close> and \<open>size\<close> are the caller's 64-bit arguments and may be negative.
\<close>

function advance_to_offset :: "'v Array list \<Rightarrow> int \<Rightarrow> nat \<Rightarrow> int \<Rightarrow> nat \<times> int \<times> int" where
  "advance_to_offset chunks offset chunk_index absolute_position =
     (if chunk_index < length chunks \<and> absolute_position < offset then
        let chunk_length = int (array_length (data (chunks ! chunk_index))) in
        if absolute_position + chunk_length > offset
        then (chunk_index, absolute_position, offset - absolute_position)
        else advance_to_offset chunks offset (chunk_index + 1) (absolute_position + chunk_length)
      else (chunk_index, absolute_position, 0))"
  by pat_completeness auto
termination
  by (relation "measure (\<lambda>(chunks, offset, chunk_index, absolute_position). length chunks - chunk_index)") auto

text \<open>
  The second loop: it writes \<open>size\<close> values, slice by slice. The write of one slice,
  \<open>Write(const Array&)\<close>, is the parameter \<open>write1\<close>: its status depends on the
  underlying column writer, whose state is \<open>'w\<close>. \<open>data.chunk(chunk_index)\<close> past the
  last chunk is a read outside the vector of chunks.
\<close>

definition available_values :: "'v Array \<Rightarrow> int \<Rightarrow> int" where
  "available_values chunk chunk_offset = int (array_length (data chunk)) - chunk_offset"

definition chunk_write_size :: "int \<Rightarrow> int \<Rightarrow> 'v Array \<Rightarrow> int \<Rightarrow> int" where
  "chunk_write_size size' values_written chunk chunk_offset =
     min (size' - values_written) (available_values chunk chunk_offset)"

function write_slices ::
  "('v Array \<Rightarrow> 'w \<Rightarrow> Status \<times> 'w) \<Rightarrow> 'v Array list \<Rightarrow> int \<Rightarrow> nat \<Rightarrow> int \<Rightarrow> int \<Rightarrow> 'w
   \<Rightarrow> Status \<times> 'w" where
  "write_slices write1 chunks size' chunk_index chunk_offset values_written w =
     (if values_written < size' then
        if length chunks \<le> chunk_index then (Some OutOfBounds, w)
        else
          let chunk = chunks ! chunk_index;
              array_to_write = Slice chunk (nat chunk_offset)
                                 (nat (chunk_write_size size' values_written chunk chunk_offset))
          in (case write1 array_to_write w of
                (Some e, w') \<Rightarrow> (Some e, w')
              | (None, w') \<Rightarrow>
                  if chunk_write_size size' values_written chunk chunk_offset
                     = available_values chunk chunk_offset
                  then write_slices write1 chunks size' (chunk_index + 1) 0
                         (values_written + chunk_write_size size' values_written chunk chunk_offset) w'
                  else write_slices write1 chunks size' chunk_index chunk_offset
                         (values_written + chunk_write_size size' values_written chunk chunk_offset) w')
      else (OK, w))"
  by pat_completeness auto
termination
proof (relation "measures [\<lambda>(write1, chunks, size', chunk_index, chunk_offset, values_written, w).
                             length chunks - chunk_index,
                           \<lambda>(write1, chunks, size', chunk_index, chunk_offset, values_written, w).
                             nat (size' - values_written)]", goal_cases)
  case 1
  show ?case by simp
next
  case (2 write1 chunks size' chunk_index chunk_offset values_written w chunk)
  then show ?case by auto
next
  case (3 write1 chunks size' chunk_index chunk_offset values_written w chunk)
  then have "chunk_write_size size' values_written chunk chunk_offset = size' - values_written"
    by (simp add: chunk_write_size_def min_def split: if_splits)
  with 3 show ?case by auto
qed

declare advance_to_offset.simps [simp del] write_slices.simps [simp del]

definition Write_ChunkedArray ::
  "('v Array \<Rightarrow> 'w \<Rightarrow> Status \<times> 'w) \<Rightarrow> 'v Array list \<Rightarrow> int \<Rightarrow> int \<Rightarrow> 'w
   \<Rightarrow> Status \<times> 'w" where
  "Write_ChunkedArray write1 chunks offset size' w =
     (if ChunkedArray_length chunks = 0 then (OK, w)
      else
        (case advance_to_offset chunks offset 0 0 of
           (chunk_index, absolute_position, chunk_offset) \<Rightarrow>
             if absolute_position \<ge> int (ChunkedArray_length chunks)
             then (Some (Invalid [Str ''Cannot write data at offset past end of chunked array'']), w)
             else write_slices write1 chunks size' chunk_index chunk_offset 0 w))"


section \<open>The underlying column writer\<close>

text \<open>
  \<open>TypedColumnWriter::WriteBatch\<close> and \<open>WriteBatchSpaced\<close> belong to the low-level
  Parquet writer. A materializer of writer.cc ends by calling one of them; the model of a
  materializer returns that call with its arguments. Level pointers may be null
  (\<open>None\<close>). \<open>WriteBatch\<close> is the dense mode, \<open>WriteBatchSpaced\<close> the spaced mode.
\<close>

type_synonym levels = "16 word list option"

datatype 'p writer_call =
    WriteBatch nat levels levels "'p list"
  | WriteBatchSpaced nat levels levels "8 word list option" nat "'p list"

section \<open>Timestamp coercion: ArrowColumnWriter::WriteTimestampsCoerce\<close>

definition COERCE_DIVIDE :: int where "COERCE_DIVIDE = -1"
definition COERCE_INVALID :: int where "COERCE_INVALID = 0"
definition COERCE_MULTIPLY :: int where "COERCE_MULTIPLY = 1"

text \<open>
  \<open>static_cast<int>(unit)\<close>: the enumerators of \<open>arrow::TimeUnit::type\<close> in their
  declared order, which is the order of the rows and columns of the table.
\<close>

fun TimeUnit_index :: "TimeUnit \<Rightarrow> nat" where
  "TimeUnit_index SECOND = 0"
| "TimeUnit_index MILLI = 1"
| "TimeUnit_index MICRO = 2"
| "TimeUnit_index NANO = 3"

definition kTimestampCoercionFactors :: "(int \<times> 64 word) list list" where
  "kTimestampCoercionFactors =
     [ [(COERCE_INVALID, 0), (COERCE_MULTIPLY, 1000), (COERCE_MULTIPLY, 1000000),
        (COERCE_MULTIPLY, 1000000000)],
       [(COERCE_INVALID, 0), (COERCE_MULTIPLY, 1), (COERCE_MULTIPLY, 1000),
        (COERCE_MULTIPLY, 1000000)],
       [(COERCE_INVALID, 0), (COERCE_DIVIDE, 1000), (COERCE_MULTIPLY, 1),
        (COERCE_MULTIPLY, 1000)],
       [(COERCE_INVALID, 0), (COERCE_DIVIDE, 1000000), (COERCE_DIVIDE, 1000),
        (COERCE_MULTIPLY, 1)] ]"

text \<open>
  The C++ operators \<open>/\<close> and \<open>%\<close> on \<open>int64_t\<close>: the operands are read as signed
  integers, the quotient is truncated towards zero (\<open>sdiv\<close> on \<open>int\<close>) and the
  remainder has the sign of the dividend (\<open>smod\<close>). \<open>*\<close> on \<open>int64_t\<close> is the
  multiplication of 64-bit words, which wraps around.
\<close>

definition int64_div :: "64 word \<Rightarrow> 64 word \<Rightarrow> 64 word" where
  "int64_div a b = word_of_int (sint a sdiv sint b)"

definition int64_mod :: "64 word \<Rightarrow> 64 word \<Rightarrow> 64 word" where
  "int64_mod a b = word_of_int (sint a smod sint b)"

text \<open>
  \<open>ctx_->GetScratchData<T>(n, &buffer)\<close> resizes the scratch buffer of the context to
  \<open>n\<close> entries and returns it; the allocation is taken to succeed. A write of
  \<open>buffer[i]\<close> with \<open>i \<ge> n\<close> is a write outside the buffer that was asked for, and is
  \<open>OutOfBounds\<close>.

  The lambda \<open>DivideBy\<close>. Its captured variables are parameters: the truncation flag,
  the two types of the message, the array, \<open>values\<close>, the array's values from its
  offset on, and \<open>num_levels\<close>, the number of entries of the scratch buffer. \<open>i\<close> is
  the loop counter and \<open>buffer\<close> the entries written so far. A read of \<open>values[i]\<close>
  past the values buffer is \<open>OutOfBounds\<close>.
\<close>

function DivideBy ::
  "bool \<Rightarrow> TimestampType \<Rightarrow> TimestampType \<Rightarrow> ArrayData \<Rightarrow> 64 word list \<Rightarrow> nat \<Rightarrow> 64 word
   \<Rightarrow> nat \<Rightarrow> 64 word list \<Rightarrow> error + 64 word list" where
  "DivideBy truncation_allowed source_type target_type d vals num_levels factor i buffer =
     (if i < array_length d then
        if length vals \<le> i then Inl OutOfBounds
        else if \<not> truncation_allowed \<and> \<not> IsNull d i \<and> int64_mod (vals ! i) factor \<noteq> 0 then
          Inl (Invalid [Str ''Casting from '', PrintedTimestampType source_type, Str '' to '',
                        PrintedTimestampType target_type, Str '' would lose data: '',
                        PrintedInt64 (vals ! i)])
        else if num_levels \<le> i then Inl OutOfBounds
        else DivideBy truncation_allowed source_type target_type d vals num_levels factor (i + 1)
               (buffer @ [int64_div (vals ! i) factor])
      else Inr buffer)"
  by pat_completeness auto
termination
  by (relation "measure (\<lambda>(ta, st, tt, d, vals, n, factor, i, buffer). array_length d - i)") auto

function MultiplyBy ::
  "ArrayData \<Rightarrow> 64 word list \<Rightarrow> nat \<Rightarrow> 64 word \<Rightarrow> nat \<Rightarrow> 64 word list
   \<Rightarrow> error + 64 word list" where
  "MultiplyBy d vals num_levels factor i buffer =
     (if i < array_length d then
        if length vals \<le> i \<or> num_levels \<le> i then Inl OutOfBounds
        else MultiplyBy d vals num_levels factor (i + 1) (buffer @ [vals ! i * factor])
      else Inr buffer)"
  by pat_completeness auto
termination
  by (relation "measure (\<lambda>(d, vals, n, factor, i, buffer). array_length d - i)") auto

declare DivideBy.simps [simp del] MultiplyBy.simps [simp del]

text \<open>
  \<open>::arrow::timestamp(target_unit)\<close>: the timestamp type of that unit, without a time
  zone.
\<close>

definition timestamp :: "TimeUnit \<Rightarrow> TimestampType" where
  "timestamp u = \<lparr> unit = u, timezone = [] \<rparr>"

text \<open>
  \<open>WriteTimestampsCoerce\<close>. \<open>raw\<close> is the array's values buffer, and
  \<open>data.raw_values()\<close> points \<open>offset\<close> elements into it. \<open>is_required\<close> is
  \<open>writer_->descr()->schema_node()->is_required()\<close>. \<open>DCHECK_NE\<close> is an assertion
  of debug builds only and is left out, so a \<open>COERCE_INVALID\<close> entry multiplies by its
  factor 0. The scratch buffer is asked for with \<open>num_levels\<close> entries. The two
  \<open>Int64Type\<close>/\<open>TimestampType\<close> batch writers are the fast paths that hand the
  buffer to the column writer as it is.
\<close>

definition WriteTimestampsCoerce ::
  "bool \<Rightarrow> ArrowWriterProperties \<Rightarrow> TimestampType \<Rightarrow> ArrayData \<Rightarrow> 64 word list
   \<Rightarrow> nat \<Rightarrow> levels \<Rightarrow> levels \<Rightarrow> error + (64 word) writer_call" where
  "WriteTimestampsCoerce is_required properties source_type d raw num_levels def_levels rep_levels =
     (let vals = drop (array_offset d) raw;
          source_unit = unit source_type;
          target_unit = coerce_timestamps_unit properties;
          target_type = timestamp target_unit;
          truncation_allowed = truncated_timestamps_allowed properties;
          coercion = kTimestampCoercionFactors ! TimeUnit_index source_unit ! TimeUnit_index target_unit
      in bindE (if fst coercion = COERCE_DIVIDE
                then DivideBy truncation_allowed source_type target_type d vals num_levels
                       (snd coercion) 0 []
                else MultiplyBy d vals num_levels (snd coercion) 0 [])
           (\<lambda>buffer.
              if is_required \<or> null_count d = 0
              then Inr (WriteBatch num_levels def_levels rep_levels buffer)
              else Inr (WriteBatchSpaced num_levels def_levels rep_levels
                          (null_bitmap_data d) (array_offset d) buffer)))"


text \<open>
  A value loses data in a division when truncation is not allowed, the slot is not null
  and the remainder is not zero: the condition of the \<open>if\<close> in \<open>DivideBy\<close>.
\<close>

definition loses_data :: "bool \<Rightarrow> ArrayData \<Rightarrow> 64 word list \<Rightarrow> 64 word \<Rightarrow> nat \<Rightarrow> bool" where
  "loses_data truncation_allowed d vals factor i =
     (\<not> truncation_allowed \<and> \<not> IsNull d i \<and> int64_mod (vals ! i) factor \<noteq> 0)"

text \<open>The values buffer handed to the column writer.\<close>

fun batch_values :: "'p writer_call \<Rightarrow> 'p list" where
  "batch_values (WriteBatch n dl rl vs) = vs"
| "batch_values (WriteBatchSpaced n dl rl vb vo vs) = vs"

text \<open>
  The coercion table as the specification gives it (section 4.4): the factor of the three
  dividing coercions, and the factor of the multiplying ones.
\<close>

definition spec_divide_factor :: "TimeUnit \<Rightarrow> TimeUnit \<Rightarrow> int option" where
  "spec_divide_factor source target =
     (if source = MICRO \<and> target = MILLI then Some 1000
      else if source = NANO \<and> target = MILLI then Some 1000000
      else if source = NANO \<and> target = MICRO then Some 1000
      else None)"

definition spec_multiply_factor :: "TimeUnit \<Rightarrow> TimeUnit \<Rightarrow> int option" where
  "spec_multiply_factor source target =
     (if target = SECOND then None
      else if source = SECOND then
        Some (if target = MILLI then 1000 else if target = MICRO then 1000000 else 1000000000)
      else if source = MILLI then
        Some (if target = MILLI then 1 else if target = MICRO then 1000 else 1000000)
      else if source = MICRO \<and> target = MICRO then Some 1
      else if source = MICRO \<and> target = NANO then Some 1000
      else if source = NANO \<and> target = NANO then Some 1
      else None)"

section \<open>LevelBuilder\<close>

record 'v LevelBuilder =
  def_levels' :: "16 word list"
  rep_levels' :: "16 word list"
  null_counts' :: "nat list"
  valid_bitmaps' :: "8 word list option list"
  offsets' :: "int list list"
  array_offsets' :: "int list"
  nullable' :: "bool list"
  min_offset_idx' :: int
  max_offset_idx' :: int
  values_array' :: "'v Array option"

text \<open>The constructor: empty builders and vectors.\<close>

definition LevelBuilder_new :: "'v LevelBuilder" where
  "LevelBuilder_new = \<lparr> def_levels' = [], rep_levels' = [], null_counts' = [], valid_bitmaps' = [],
                         offsets' = [], array_offsets' = [], nullable' = [],
                         min_offset_idx' = 0, max_offset_idx' = 0, values_array' = None \<rparr>"

text \<open>
  \<open>xs[i]\<close> on a vector or through a pointer: \<open>at xs i\<close> where \<open>in_range xs i\<close>
  holds. The functions below test \<open>in_range\<close> before each read and return
  \<open>OutOfBounds\<close> where the C++ would read outside the buffer.
\<close>

definition in_range :: "'a list \<Rightarrow> int \<Rightarrow> bool" where
  "in_range xs i = (0 \<le> i \<and> i < int (length xs))"

definition at :: "'a list \<Rightarrow> int \<Rightarrow> 'a" where
  "at xs i = xs ! nat i"

text \<open>\<open>BitUtil::GetBit\<close> through a pointer that may be null, at a 64-bit index.\<close>

definition bit_at :: "8 word list option \<Rightarrow> int \<Rightarrow> bool option" where
  "bit_at bits i = (case bits of
                      None \<Rightarrow> None
                    | Some bytes \<Rightarrow> if i < 0 then None else GetBit bytes (nat i))"

definition cast_int32 :: "int \<Rightarrow> int" where
  "cast_int32 x = sint (word_of_int x :: 32 word)"

text \<open>
  \<open>ListArray::value_offset(i)\<close> is \<open>raw_value_offsets_[i + offset]\<close>, and
  \<open>ListArray::raw_value_offsets()\<close> points \<open>offset\<close> entries into the offsets buffer.
\<close>

definition value_offset :: "ArrayData \<Rightarrow> int list \<Rightarrow> int \<Rightarrow> error + int" where
  "value_offset d raw_value_offsets i =
     (if in_range raw_value_offsets (i + int (array_offset d))
      then Inr (at raw_value_offsets (i + int (array_offset d)))
      else Inl OutOfBounds)"

fun unsupported_name :: "unsupported_array \<Rightarrow> string" where
  "unsupported_name Map = ''Map''"
| "unsupported_name FixedSizeList = ''FixedSizeList''"
| "unsupported_name Struct = ''Struct''"
| "unsupported_name Union = ''Union''"
| "unsupported_name Dictionary = ''Dictionary''"
| "unsupported_name Extension = ''Extension''"

text \<open>
  \<open>VisitInline\<close> dispatches on the class of the array to one of the \<open>Visit\<close>
  overloads: the template for flat arrays, the one for \<open>ListArray\<close>, which visits the
  child, and the six \<open>NOT_IMPLEMENTED_VISIT\<close> ones.
\<close>

fun VisitInline :: "'v Array \<Rightarrow> 'v LevelBuilder \<Rightarrow> error + 'v LevelBuilder" where
  "VisitInline (FlatArray t d v) s =
     Inr (s\<lparr> array_offsets' := array_offsets' s @ [cast_int32 (int (array_offset d))],
             valid_bitmaps' := valid_bitmaps' s @ [null_bitmap_data d],
             null_counts' := null_counts' s @ [null_count d],
             values_array' := Some (FlatArray t d v) \<rparr>)"
| "VisitInline (ListArray t d raw_value_offsets vals) s =
     (case value_offset d raw_value_offsets (min_offset_idx' s) of
        Inl e \<Rightarrow> Inl e
      | Inr new_min \<Rightarrow>
          (case value_offset d raw_value_offsets (max_offset_idx' s) of
             Inl e \<Rightarrow> Inl e
           | Inr new_max \<Rightarrow>
               VisitInline vals
                 (s\<lparr> array_offsets' := array_offsets' s @ [cast_int32 (int (array_offset d))],
                     valid_bitmaps' := valid_bitmaps' s @ [null_bitmap_data d],
                     null_counts' := null_counts' s @ [null_count d],
                     offsets' := offsets' s @ [drop (array_offset d) raw_value_offsets],
                     min_offset_idx' := new_min,
                     max_offset_idx' := new_max \<rparr>)))"
| "VisitInline (OtherArray k t d) s =
     Inl (NotImplemented [Str (''Level generation for '' @ unsupported_name k @ '' not supported yet'')])"

text \<open>
  The loop of \<open>GenerateLevels\<close> that walks down the field's type and collects the
  nullable flags. \<open>nullable_acc\<close> is \<open>nullable_\<close> as it is before the loop test.
\<close>

function collect_nullable :: "Field \<Rightarrow> bool list \<Rightarrow> error + bool list" where
  "collect_nullable current_field nullable_acc =
     (if num_children (field_type current_field) > 0 then
        if num_children (field_type current_field) > 1
        then Inl (NotImplemented [Str ''Fields with more than one child are not supported.''])
        else collect_nullable (child (field_type current_field) 0)
               (nullable_acc @ [nullable (child (field_type current_field) 0)])
      else Inr nullable_acc)"
  by pat_completeness auto
termination
  by (relation "measure (\<lambda>(f, acc). size f)") (simp_all add: size_child)

text \<open>
  The loop over a \<open>BitmapReader\<close> started at the array's offset: \<open>IsSet()\<close> after
  \<open>i\<close> calls of \<open>Next()\<close> is bit \<open>start_offset + i\<close> of the bitmap.
\<close>

function primitive_def_levels ::
  "8 word list \<Rightarrow> nat \<Rightarrow> nat \<Rightarrow> nat \<Rightarrow> 16 word list \<Rightarrow> error + 16 word list" where
  "primitive_def_levels bitmap start_offset n i def_levels_ptr =
     (if i < n then
        (case GetBit bitmap (start_offset + i) of
           None \<Rightarrow> Inl OutOfBounds
         | Some is_set \<Rightarrow>
             primitive_def_levels bitmap start_offset n (i + 1)
               (def_levels_ptr @ [if is_set then 1 else 0]))
      else Inr def_levels_ptr)"
  by pat_completeness auto
termination
  by (relation "measure (\<lambda>(bitmap, start_offset, n, i, acc). n - i)") auto

text \<open>
  The definition levels of a primitive nullable array, as \<open>GenerateLevels\<close> writes them
  into the scratch buffer: the two \<open>std::fill\<close> fast paths and the bitmap loop. A
  \<open>BitmapReader\<close> on a null bitmap pointer reads through it.
\<close>

definition primitive_levels :: "ArrayData \<Rightarrow> error + 16 word list" where
  "primitive_levels d =
     (if null_count d = 0 then Inr (replicate (array_length d) 1)
      else if null_count d = array_length d then Inr (replicate (array_length d) 0)
      else (case null_bitmap_data d of
              None \<Rightarrow> Inl OutOfBounds
            | Some bitmap \<Rightarrow> primitive_def_levels bitmap (array_offset d) (array_length d) 0 []))"

text \<open>
  The two level builders \<open>def_levels_\<close> and \<open>rep_levels_\<close> are the only members that
  the three recursive functions change. They are passed as a pair, first the definition
  levels; the other members are read from the \<open>LevelBuilder\<close>.
\<close>

type_synonym level_buffers = "16 word list \<times> 16 word list"

text \<open>The loop at the end of \<open>HandleNonNullList\<close>, over the elements of a leaf list.\<close>

function leaf_def_levels ::
  "bool \<Rightarrow> nat \<Rightarrow> 8 word list option \<Rightarrow> int \<Rightarrow> 16 word \<Rightarrow> int \<Rightarrow> int \<Rightarrow> int
   \<Rightarrow> 16 word list \<Rightarrow> error + 16 word list" where
  "leaf_def_levels nullable_level level_null_count level_valid_bitmap level_array_offset
       def_level inner_offset inner_length i dl =
     (if i < inner_length then
        if nullable_level \<and> level_null_count \<noteq> 0
           \<and> bit_at level_valid_bitmap (inner_offset + i + level_array_offset) = None
        then Inl OutOfBounds
        else leaf_def_levels nullable_level level_null_count level_valid_bitmap level_array_offset
               def_level inner_offset inner_length (i + 1)
               (dl @ [if nullable_level
                         \<and> (level_null_count = 0
                              \<or> bit_at level_valid_bitmap (inner_offset + i + level_array_offset)
                                 = Some True)
                      then def_level + 2 else def_level + 1])
      else Inr dl)"
  by pat_completeness auto
termination
  by (relation "measure (\<lambda>(nl, nc, bm, ao, dlv, io, il, i, dl). nat (il - i))") auto

text \<open>
  The part of \<open>HandleNonNullList\<close> after the comment "We have reached the leaf":
  \<open>recursion_level\<close> is \<open>rep_level + 1\<close>.
\<close>

definition leaf_levels ::
  "'v LevelBuilder \<Rightarrow> 16 word \<Rightarrow> 16 word \<Rightarrow> int \<Rightarrow> int \<Rightarrow> level_buffers \<Rightarrow> error + level_buffers" where
  "leaf_levels s def_level rep_level inner_offset inner_length b =
     (let recursion_level = sint rep_level + 1 in
      if \<not> in_range (nullable' s) recursion_level
         \<or> \<not> in_range (null_counts' s) recursion_level
         \<or> \<not> in_range (valid_bitmaps' s) recursion_level
      then Inl OutOfBounds
      else
        let nullable_level = at (nullable' s) recursion_level;
            level_null_count = at (null_counts' s) recursion_level;
            level_valid_bitmap = at (valid_bitmaps' s) recursion_level;
            rl = (if inner_length \<ge> 1
                  then snd b @ replicate (nat (inner_length - 1)) (rep_level + 1)
                  else snd b)
        in if level_null_count \<noteq> 0 \<and> level_valid_bitmap = None then
             (if inner_length < 0 then Inl OutOfBounds
              else Inr (fst b @ replicate (nat inner_length) (def_level + 1), rl))
           else if 0 < inner_length \<and> \<not> in_range (array_offsets' s) recursion_level
           then Inl OutOfBounds
           else
             (case leaf_def_levels nullable_level level_null_count level_valid_bitmap
                     (at (array_offsets' s) recursion_level)
                     def_level inner_offset inner_length 0 (fst b) of
                Inl e \<Rightarrow> Inl e
              | Inr dl \<Rightarrow> Inr (dl, rl)))"

definition inner_offset_of :: "'v LevelBuilder \<Rightarrow> 16 word \<Rightarrow> int \<Rightarrow> int" where
  "inner_offset_of s rep_level index = at (at (offsets' s) (sint rep_level)) index"

definition inner_length_of :: "'v LevelBuilder \<Rightarrow> 16 word \<Rightarrow> int \<Rightarrow> int" where
  "inner_length_of s rep_level index =
     at (at (offsets' s) (sint rep_level)) (index + 1) - inner_offset_of s rep_level index"

text \<open>
  The validity bit that \<open>HandleList\<close> reads:
  \<open>GetBit(valid_bitmaps_[rep_level], index + array_offsets_[rep_level])\<close>.
\<close>

definition list_valid_bit :: "'v LevelBuilder \<Rightarrow> 16 word \<Rightarrow> int \<Rightarrow> bool option" where
  "list_valid_bit s rep_level index =
     (if in_range (valid_bitmaps' s) (sint rep_level) \<and> in_range (array_offsets' s) (sint rep_level)
      then bit_at (at (valid_bitmaps' s) (sint rep_level))
             (index + at (array_offsets' s) (sint rep_level))
      else None)"

text \<open>
  The measure of the recursion: the number of list layers below \<open>rep_level\<close>, and 0
  where \<open>rep_level\<close> is not the index of a list layer (there the functions return
  without a recursive call).
\<close>

definition depth_left :: "'v LevelBuilder \<Rightarrow> 16 word \<Rightarrow> nat" where
  "depth_left s rep_level =
     (if in_range (offsets' s) (sint rep_level)
      then nat (int (length (offsets' s)) - sint rep_level) else 0)"

lemma depth_left_step:
  "in_range (offsets' s) (sint rep_level) \<Longrightarrow>
   sint rep_level + 1 < int (length (offsets' s)) \<Longrightarrow>
   depth_left s (rep_level + 1) < depth_left s rep_level"
proof -
  assume r: "in_range (offsets' s) (sint rep_level)"
    and l: "sint rep_level + 1 < int (length (offsets' s))"
  have st: "sint (rep_level + 1) = signed_take_bit 15 (sint rep_level + 1)"
    by (simp add: sint_word_ariths)
  have lt: "sint rep_level < 2 ^ 15" using sint_lt [of rep_level] by simp
  have ge: "0 \<le> sint rep_level" using r by (simp add: in_range_def)
  have "sint (rep_level + 1) = sint rep_level + 1 \<or> sint (rep_level + 1) < 0"
  proof (cases "sint rep_level + 1 < 2 ^ 15")
    case True
    with ge st show ?thesis by (simp add: signed_take_bit_int_eq_self)
  next
    case False
    with lt have "sint rep_level + 1 = 2 ^ 15" by simp
    with st have "sint (rep_level + 1) = signed_take_bit 15 (2 ^ 15 :: int)" by simp
    then show ?thesis by (simp add: signed_take_bit_eq_take_bit_minus)
  qed
  with r l show ?thesis
    by (auto simp add: depth_left_def in_range_def)
qed

text \<open>
  \<open>HandleList\<close>, \<open>HandleNonNullList\<close> and \<open>HandleListEntries\<close>. The last one is
  the loop itself: \<open>i\<close> is its counter.
\<close>

function HandleList ::
    "'v LevelBuilder \<Rightarrow> 16 word \<Rightarrow> 16 word \<Rightarrow> int \<Rightarrow> level_buffers \<Rightarrow> error + level_buffers"
  and HandleNonNullList ::
    "'v LevelBuilder \<Rightarrow> 16 word \<Rightarrow> 16 word \<Rightarrow> int \<Rightarrow> level_buffers \<Rightarrow> error + level_buffers"
  and HandleListEntries ::
    "'v LevelBuilder \<Rightarrow> 16 word \<Rightarrow> 16 word \<Rightarrow> int \<Rightarrow> int \<Rightarrow> int \<Rightarrow> level_buffers
     \<Rightarrow> error + level_buffers" where
  "HandleList s def_level rep_level index b =
     (if \<not> in_range (nullable' s) (sint rep_level) then Inl OutOfBounds
      else if at (nullable' s) (sint rep_level) then
        if \<not> in_range (null_counts' s) (sint rep_level) then Inl OutOfBounds
        else if at (null_counts' s) (sint rep_level) = 0
        then HandleNonNullList s (def_level + 1) rep_level index b
        else if list_valid_bit s rep_level index = None then Inl OutOfBounds
        else if list_valid_bit s rep_level index = Some True
        then HandleNonNullList s (def_level + 1) rep_level index b
        else Inr (fst b @ [def_level], snd b)
      else HandleNonNullList s def_level rep_level index b)"
| "HandleNonNullList s def_level rep_level index b =
     (if \<not> in_range (offsets' s) (sint rep_level)
         \<or> \<not> in_range (at (offsets' s) (sint rep_level)) index
         \<or> \<not> in_range (at (offsets' s) (sint rep_level)) (index + 1)
      then Inl OutOfBounds
      else if inner_length_of s rep_level index = 0
      then Inr (fst b @ [def_level], snd b)
      else if sint rep_level + 1 < int (length (offsets' s))
      then HandleListEntries s (def_level + 1) (rep_level + 1)
             (inner_offset_of s rep_level index) (inner_length_of s rep_level index) 0 b
      else leaf_levels s def_level rep_level
             (inner_offset_of s rep_level index) (inner_length_of s rep_level index) b)"
| "HandleListEntries s def_level rep_level offset length' i b =
     (if i < length' then
        (case HandleList s def_level rep_level (offset + i)
                (if i > 0 then (fst b, snd b @ [rep_level]) else b) of
           Inl e \<Rightarrow> Inl e
         | Inr b' \<Rightarrow> HandleListEntries s def_level rep_level offset length' (i + 1) b')
      else Inr b)"
  by pat_completeness auto
termination
  apply (relation "measures [
      (\<lambda>x. case x of Inl (s, d, r, idx, b) \<Rightarrow> depth_left s r
                     | Inr (Inl (s, d, r, idx, b)) \<Rightarrow> depth_left s r
                     | Inr (Inr (s, d, r, off, len, i, b)) \<Rightarrow> depth_left s r),
      (\<lambda>x. case x of Inl _ \<Rightarrow> 1 | Inr (Inl _) \<Rightarrow> 0 | Inr (Inr _) \<Rightarrow> 2),
      (\<lambda>x. case x of Inl _ \<Rightarrow> 0 | Inr (Inl _) \<Rightarrow> 0
                     | Inr (Inr (s, d, r, off, len, i, b)) \<Rightarrow> nat (len - i))]")
   apply (auto simp add: depth_left_step)
  done

declare collect_nullable.simps [simp del] primitive_def_levels.simps [simp del]
  leaf_def_levels.simps [simp del] HandleList.simps [simp del]
  HandleNonNullList.simps [simp del] HandleListEntries.simps [simp del]

text \<open>
  What \<open>GenerateLevels\<close> writes through its output pointers when it returns OK.
\<close>

record 'v level_outputs =
  out_values_offset :: int
  out_num_values :: int
  out_num_levels :: int
  out_def_levels :: levels
  out_rep_levels :: levels
  out_values_array :: "'v Array option"

definition GenerateLevels :: "'v Array \<Rightarrow> Field \<Rightarrow> 'v LevelBuilder \<Rightarrow> error + 'v level_outputs" where
  "GenerateLevels array field s =
     (case VisitInline array
             (s\<lparr> min_offset_idx' := 0, max_offset_idx' := int (array_length (data array)) \<rparr>) of
        Inl e \<Rightarrow> Inl e
      | Inr s1 \<Rightarrow>
          (case collect_nullable field (nullable' s1 @ [nullable field]) of
             Inl e \<Rightarrow> Inl e
           | Inr nullable_all \<Rightarrow>
               let s2 = s1\<lparr> nullable' := nullable_all \<rparr>;
                   out = \<lparr> out_values_offset = min_offset_idx' s2,
                           out_num_values = max_offset_idx' s2 - min_offset_idx' s2,
                           out_num_levels = 0,
                           out_def_levels = None,
                           out_rep_levels = None,
                           out_values_array = values_array' s2 \<rparr>
               in if length (nullable' s2) = 1 then
                    (if nullable' s2 ! 0 then
                       (case primitive_levels (data array) of
                          Inl e \<Rightarrow> Inl e
                        | Inr def_levels_scratch \<Rightarrow>
                            Inr (out\<lparr> out_def_levels := Some def_levels_scratch,
                                       out_num_levels := int (array_length (data array)) \<rparr>))
                     else Inr (out\<lparr> out_num_levels := int (array_length (data array)) \<rparr>))
                  else
                    (case HandleListEntries s2 0 0 0 (int (array_length (data array))) 0
                            (def_levels' s2, rep_levels' s2 @ [0]) of
                       Inl e \<Rightarrow> Inl e
                     | Inr b \<Rightarrow>
                         Inr (out\<lparr> out_def_levels := Some (fst b),
                                    out_rep_levels := Some (snd b),
                                    out_num_levels := int (length (snd b)) \<rparr>))))"

section \<open>Single-array writes: GetLeafType and ArrowColumnWriter::Write(const Array&)\<close>

function GetLeafType :: "DataType \<Rightarrow> error + type_id" where
  "GetLeafType t =
     (if type_id_of t = LIST \<or> type_id_of t = STRUCT then
        if num_children t \<noteq> 1
        then Inl (Invalid [Str ''Nested column branch had multiple children: '', PrintedDataType t])
        else GetLeafType (field_type (child t 0))
      else Inr (type_id_of t))"
  by pat_completeness auto
termination
  by (relation "measure size") (simp_all add: size_child_type)

declare GetLeafType.simps [simp del]

datatype ParquetType =
    BooleanType | Int32Type | Int64Type | Int96Type | FloatType | DoubleType
  | ByteArrayType | FLBAType

datatype ArrowType =
    arrow_NullType | arrow_BooleanType | arrow_Int8Type | arrow_UInt8Type | arrow_Int16Type
  | arrow_UInt16Type | arrow_Int32Type | arrow_UInt32Type | arrow_Int64Type | arrow_UInt64Type
  | arrow_FloatType | arrow_DoubleType | arrow_BinaryType | arrow_FixedSizeBinaryType
  | arrow_Decimal128Type | arrow_Date32Type | arrow_Date64Type | arrow_Time32Type
  | arrow_Time64Type | arrow_TimestampType

text \<open>
  \<open>Write\<close> ends in a call of an instance of \<open>TypedWriteBatch\<close> or of
  \<open>WriteTimestamps\<close> on the sliced values array and the levels. The model returns that
  call, or \<open>None\<close> when nothing is written.
\<close>

datatype 'v batch_call =
    Call_TypedWriteBatch ParquetType ArrowType "'v Array" int levels levels
  | Call_WriteTimestamps "'v Array" int levels levels

definition WRITE_BATCH_CASE :: "type_id \<Rightarrow> (ParquetType \<times> ArrowType) option" where
  "WRITE_BATCH_CASE values_type =
     (case values_type of
        NA \<Rightarrow> Some (Int32Type, arrow_NullType)
      | BOOL \<Rightarrow> Some (BooleanType, arrow_BooleanType)
      | INT8 \<Rightarrow> Some (Int32Type, arrow_Int8Type)
      | UINT8 \<Rightarrow> Some (Int32Type, arrow_UInt8Type)
      | INT16 \<Rightarrow> Some (Int32Type, arrow_Int16Type)
      | UINT16 \<Rightarrow> Some (Int32Type, arrow_UInt16Type)
      | INT32 \<Rightarrow> Some (Int32Type, arrow_Int32Type)
      | INT64 \<Rightarrow> Some (Int64Type, arrow_Int64Type)
      | UINT64 \<Rightarrow> Some (Int64Type, arrow_UInt64Type)
      | FLOAT \<Rightarrow> Some (FloatType, arrow_FloatType)
      | DOUBLE \<Rightarrow> Some (DoubleType, arrow_DoubleType)
      | BINARY \<Rightarrow> Some (ByteArrayType, arrow_BinaryType)
      | STRING \<Rightarrow> Some (ByteArrayType, arrow_BinaryType)
      | FIXED_SIZE_BINARY \<Rightarrow> Some (FLBAType, arrow_FixedSizeBinaryType)
      | DECIMAL \<Rightarrow> Some (FLBAType, arrow_Decimal128Type)
      | DATE32 \<Rightarrow> Some (Int32Type, arrow_Date32Type)
      | DATE64 \<Rightarrow> Some (Int32Type, arrow_Date64Type)
      | TIME32 \<Rightarrow> Some (Int32Type, arrow_Time32Type)
      | TIME64 \<Rightarrow> Some (Int64Type, arrow_Time64Type)
      | _ \<Rightarrow> None)"

definition Write_Array :: "ParquetVersion \<Rightarrow> Field \<Rightarrow> 'v Array \<Rightarrow> error + 'v batch_call option" where
  "Write_Array version field' array =
     (if array_length (data array) = 0 then Inr None
      else
        (case GetLeafType (array_type array) of
           Inl e \<Rightarrow> Inl e
         | Inr values_type \<Rightarrow>
             (case GenerateLevels array field' LevelBuilder_new of
                Inl e \<Rightarrow> Inl e
              | Inr g \<Rightarrow>
                  (case out_values_array g of
                     None \<Rightarrow> Inl OutOfBounds
                   | Some whole_values_array \<Rightarrow>
                       let values_array = Slice whole_values_array (nat (out_values_offset g))
                                            (nat (out_num_values g));
                           num_levels = out_num_levels g;
                           def_levels = out_def_levels g;
                           rep_levels = out_rep_levels g
                       in if values_type = UINT32 then
                            (if version = PARQUET_1_0
                             then Inr (Some (Call_TypedWriteBatch Int64Type arrow_UInt32Type
                                               values_array num_levels def_levels rep_levels))
                             else Inr (Some (Call_TypedWriteBatch Int32Type arrow_UInt32Type
                                               values_array num_levels def_levels rep_levels)))
                          else if values_type = TIMESTAMP
                          then Inr (Some (Call_WriteTimestamps values_array num_levels
                                            def_levels rep_levels))
                          else
                            (case WRITE_BATCH_CASE values_type of
                               Some (parquet_type, arrow_type) \<Rightarrow>
                                 Inr (Some (Call_TypedWriteBatch parquet_type arrow_type
                                              values_array num_levels def_levels rep_levels))
                             | None \<Rightarrow>
                                 Inl (NotImplemented
                                        [Str ''Data type not supported as list value: '',
                                         PrintedDataType (array_type values_array)]))))))"

section \<open>Predicates and examples of the specification\<close>

text \<open>
  Modelled from the spec: the invariant of an array (section 3). The validity bitmap, when
  present, covers the slots of the array (\<open>bitmap_covers\<close>), and the null count is the
  number of null slots. \<open>IsValid\<close> and \<open>IsNull\<close> read a slot outside the bitmap as
  null, where the C++ reads outside the buffer; the theorems below are about arrays whose
  bitmap covers them.
\<close>

definition bitmap_covers :: "ArrayData \<Rightarrow> bool" where
  "bitmap_covers d =
     (case null_bitmap_data d of
        None \<Rightarrow> True
      | Some bitmap \<Rightarrow> array_offset d + array_length d \<le> 8 * length bitmap)"

definition well_formed :: "ArrayData \<Rightarrow> bool" where
  "well_formed d =
     (bitmap_covers d
      \<and> null_count d = count_nulls (null_bitmap_data d) (array_offset d) (array_length d))"

text \<open>
  The field's type path contains a type with more than one child: the path goes from the
  field's type through the only child of each type.
\<close>

function multi_child_on_path :: "DataType \<Rightarrow> bool" where
  "multi_child_on_path t =
     (if num_children t > 1 then True
      else if num_children t = 1 then multi_child_on_path (field_type (child t 0))
      else False)"
  by pat_completeness auto
termination
  by (relation "measure size") (simp_all add: size_child_type)

declare multi_child_on_path.simps [simp del]

text \<open>
  The list of scenario 2 of the specification, \<open>[[1,2], null, [], [3]]\<close> as a
  \<open>list<int32>\<close> array: offsets \<open>0, 2, 2, 2, 3\<close>, validity bits \<open>1011\<close> from slot 0
  (the byte 13), one null, and the child values \<open>1, 2, 3\<close> without nulls. The list field
  is nullable, its item field is not.
\<close>

definition list_int32_field :: Field where
  "list_int32_field =
     Field ''f'' (DataType LIST [Field ''item'' (DataType INT32 []) False]) True"

definition list_int32_example :: "int list Array" where
  "list_int32_example =
     ListArray (DataType LIST [Field ''item'' (DataType INT32 []) False])
       \<lparr> array_length = 4, array_offset = 0, null_bitmap_data = Some [13], null_count = 1 \<rparr>
       [0, 2, 2, 2, 3]
       (FlatArray (DataType INT32 [])
          \<lparr> array_length = 3, array_offset = 0, null_bitmap_data = None, null_count = 0 \<rparr>
          [1, 2, 3])"

text \<open>The values of a flat array whose values buffer is a list: its slots from the offset on.\<close>

fun visible_values :: "'a list Array \<Rightarrow> 'a list" where
  "visible_values (FlatArray t d v) = take (array_length d) (drop (array_offset d) v)"
| "visible_values (ListArray t d offs c) = []"
| "visible_values (OtherArray k t d) = []"

definition struct_of_two :: DataType where
  "struct_of_two = DataType STRUCT [Field ''a'' (DataType INT32 []) True,
                                   Field ''b'' (DataType INT32 []) True]"

section \<open>Per-type materializers: ArrowColumnWriter::TypedWriteBatch\<close>

text \<open>The dense mode is \<open>WriteBatch\<close>.\<close>

fun is_dense :: "'p writer_call \<Rightarrow> bool" where
  "is_dense (WriteBatch n dl rl vs) = True"
| "is_dense (WriteBatchSpaced n dl rl vb vo vs) = False"

text \<open>
  The template \<open>WriteNonNullableBatch\<close> and its specializations convert the first
  \<open>num_values\<close> values one by one into the scratch buffer and call \<open>WriteBatch\<close>;
  \<open>WriteNullableBatch\<close> and its specializations do the same and call
  \<open>WriteBatchSpaced\<close> with the validity bitmap and its offset. The conversion of one
  value is the parameter \<open>convert\<close>: a cast to the Parquet C type in the templates, the
  division by 86400000 for \<open>Date64Type\<close>, the multiplication by 1000 for a
  \<open>Time32Type\<close> in seconds, the Impala conversion for \<open>Int96Type\<close>. In the fast paths
  (\<open>NONNULLABLE_BATCH_FAST_PATH\<close>, \<open>NULLABLE_BATCH_FAST_PATH\<close>) the values pointer
  itself is handed to the column writer: the conversion is the identity.

  The instances differ in the scratch buffer they ask for: \<open>num_values\<close> entries in the
  templates and in every specialization of \<open>WriteNullableBatch\<close>, \<open>num_levels\<close> entries
  in the specializations of \<open>WriteNonNullableBatch\<close> for \<open>Date64Type\<close> and
  \<open>Time32Type\<close>, none in the fast paths. All of them write \<open>num_values\<close> entries.
\<close>

datatype scratch_request = Request_num_values | Request_num_levels | No_request

definition WriteNonNullableBatch ::
  "scratch_request \<Rightarrow> ('a \<Rightarrow> 'p) \<Rightarrow> nat \<Rightarrow> nat \<Rightarrow> levels \<Rightarrow> levels \<Rightarrow> 'a list
   \<Rightarrow> error + 'p writer_call" where
  "WriteNonNullableBatch request convert num_values num_levels def_levels rep_levels vals =
     (if request = Request_num_levels \<and> num_levels < num_values then Inl OutOfBounds
      else Inr (WriteBatch num_levels def_levels rep_levels (map convert (take num_values vals))))"

definition WriteNullableBatch ::
  "('a \<Rightarrow> 'p) \<Rightarrow> nat \<Rightarrow> nat \<Rightarrow> levels \<Rightarrow> levels \<Rightarrow> 8 word list option \<Rightarrow> nat
   \<Rightarrow> 'a list \<Rightarrow> 'p writer_call" where
  "WriteNullableBatch convert num_values num_levels def_levels rep_levels valid_bits
       valid_bits_offset vals =
     WriteBatchSpaced num_levels def_levels rep_levels valid_bits valid_bits_offset
       (map convert (take num_values vals))"

text \<open>
  The template \<open>TypedWriteBatch\<close>, used for every pair of types that has no
  specialization of its own. \<open>values_buffer\<close> is \<open>data.values()\<close>, null for some empty
  arrays; \<open>values\<close> points \<open>offset\<close> elements into it. \<open>is_required\<close> is
  \<open>writer_->descr()->schema_node()->is_required()\<close>. \<open>request\<close> and \<open>convert\<close> stand
  for the pair of types the template is instantiated with.
\<close>

definition TypedWriteBatch ::
  "scratch_request \<Rightarrow> ('a \<Rightarrow> 'p) \<Rightarrow> bool \<Rightarrow> ArrayData \<Rightarrow> 'a list option \<Rightarrow> nat \<Rightarrow> levels
   \<Rightarrow> levels \<Rightarrow> error + 'p writer_call" where
  "TypedWriteBatch request convert is_required d values_buffer num_levels def_levels rep_levels =
     (let vals = (case values_buffer of
                    None \<Rightarrow> []
                  | Some raw \<Rightarrow> drop (array_offset d) raw)
      in if length vals < array_length d then Inl OutOfBounds
         else if is_required \<or> null_count d = 0
         then WriteNonNullableBatch request convert (array_length d) num_levels
                def_levels rep_levels vals
         else Inr (WriteNullableBatch convert (array_length d) num_levels
                     def_levels rep_levels (null_bitmap_data d) (array_offset d) vals))"

text \<open>
  The specialization for \<open>BooleanType\<close>. The loop copies the value bit of every slot
  that is not null to the next free entry of the buffer (\<open>buffer[buffer_idx++]\<close>); the
  call at the end is \<open>WriteBatch\<close> on every path.
\<close>

function boolean_buffer ::
  "ArrayData \<Rightarrow> 8 word list option \<Rightarrow> nat \<Rightarrow> bool list \<Rightarrow> error + bool list" where
  "boolean_buffer d vals i buffer =
     (if i < array_length d then
        if \<not> IsNull d i then
          (case bit_at vals (int (array_offset d) + int i) of
             None \<Rightarrow> Inl OutOfBounds
           | Some v \<Rightarrow> boolean_buffer d vals (i + 1) (buffer @ [v]))
        else boolean_buffer d vals (i + 1) buffer
      else Inr buffer)"
  by pat_completeness auto
termination
  by (relation "measure (\<lambda>(d, vals, i, buffer). array_length d - i)") auto

declare boolean_buffer.simps [simp del]

definition TypedWriteBatch_Boolean ::
  "ArrayData \<Rightarrow> 8 word list option \<Rightarrow> nat \<Rightarrow> levels \<Rightarrow> levels \<Rightarrow> error + bool writer_call" where
  "TypedWriteBatch_Boolean d vals num_levels def_levels rep_levels =
     bindE (boolean_buffer d vals 0 [])
       (\<lambda>buffer. Inr (WriteBatch num_levels def_levels rep_levels buffer))"

text \<open>The specialization for \<open>NullType\<close>: \<open>WriteBatch\<close> with a null values pointer.\<close>

definition TypedWriteBatch_Null :: "nat \<Rightarrow> levels \<Rightarrow> levels \<Rightarrow> error + 'a writer_call" where
  "TypedWriteBatch_Null num_levels def_levels rep_levels =
     Inr (WriteBatch num_levels def_levels rep_levels [])"

text \<open>
  The specializations for \<open>BinaryType\<close> and \<open>FixedSizeBinaryType\<close> have two loops:
  one over all slots when the node is required or the array has no nulls, one over the
  slots that are not null. Both fill the buffer from its start, so the buffer is the list
  of the values of the slots written, in order; it is asked for with \<open>num_levels\<close>
  entries. A \<open>ByteArray\<close> or \<open>FixedLenByteArray\<close> is the list of the bytes it points
  to.
\<close>

definition written_slots :: "bool \<Rightarrow> ArrayData \<Rightarrow> nat list" where
  "written_slots is_required d =
     (if is_required \<or> null_count d = 0 then [0..<array_length d]
      else filter (\<lambda>i. \<not> IsNull d i) [0..<array_length d])"

definition TypedWriteBatch_Binary ::
  "bool \<Rightarrow> ArrayData \<Rightarrow> int list \<Rightarrow> 8 word list option \<Rightarrow> nat \<Rightarrow> levels \<Rightarrow> levels
   \<Rightarrow> error + (8 word list) writer_call" where
  "TypedWriteBatch_Binary is_required d raw_value_offsets value_data num_levels def_levels rep_levels =
     (let vals = (case value_data of None \<Rightarrow> [] | Some bytes \<Rightarrow> bytes);
          value_offset = drop (array_offset d) raw_value_offsets
      in if num_levels < length (written_slots is_required d) then Inl OutOfBounds
         else if \<exists>i \<in> set (written_slots is_required d).
              length value_offset \<le> i + 1
              \<or> value_offset ! i < 0 \<or> value_offset ! (i + 1) < value_offset ! i
              \<or> int (length vals) < value_offset ! (i + 1)
         then Inl OutOfBounds
         else Inr (WriteBatch num_levels def_levels rep_levels
                     (map (\<lambda>i. take (nat (value_offset ! (i + 1) - value_offset ! i))
                                  (drop (nat (value_offset ! i)) vals))
                        (written_slots is_required d))))"

definition TypedWriteBatch_FixedSizeBinary ::
  "bool \<Rightarrow> nat \<Rightarrow> ArrayData \<Rightarrow> 8 word list \<Rightarrow> nat \<Rightarrow> levels \<Rightarrow> levels
   \<Rightarrow> error + (8 word list) writer_call" where
  "TypedWriteBatch_FixedSizeBinary is_required byte_width d raw num_levels def_levels rep_levels =
     (if num_levels < length (written_slots is_required d) then Inl OutOfBounds
      else if \<exists>i \<in> set (written_slots is_required d).
           length raw < (array_offset d + i + 1) * byte_width
      then Inl OutOfBounds
      else Inr (WriteBatch num_levels def_levels rep_levels
                  (map (\<lambda>i. take byte_width (drop ((array_offset d + i) * byte_width) raw))
                     (written_slots is_required d))))"


section \<open>Decimals: TypedWriteBatch<FLBAType, Decimal128Type>\<close>

text \<open>
  \<open>DecimalSize\<close> is declared in schema.h; its body is not among the sources.
  Modelled from the spec: \<open>DecimalSize(precision)\<close> is the minimum number of bytes needed
  to represent any signed integer with \<open>precision\<close> decimal digits in two's complement:
  the least \<open>n \<ge> 1\<close> with \<open>10 ^ precision \<le> 2 ^ (8 * n - 1)\<close>. \<open>min_bytes\<close> searches it
  upwards from \<open>n\<close>.
\<close>

function min_bytes :: "nat \<Rightarrow> nat \<Rightarrow> nat" where
  "min_bytes precision n =
     (if (10 :: int) ^ precision \<le> 2 ^ (8 * n - 1) then n else min_bytes precision (n + 1))"
  by pat_completeness auto
termination
proof (relation "measure (\<lambda>(precision, n). nat (10 ^ precision - 2 ^ (8 * n - 1)))", goal_cases)
  case 1
  show ?case by simp
next
  case (2 precision n)
  have lt: "(2 :: int) ^ (8 * n - 1) < 2 ^ (8 * (n + 1) - 1)"
    by (rule power_strict_increasing) simp_all
  with 2 show ?case by simp
qed

declare min_bytes.simps [simp del]

definition DecimalSize :: "nat \<Rightarrow> int" where
  "DecimalSize precision = int (min_bytes precision 1)"

text \<open>
  Modelled from the spec: \<open>BitUtil::ToBigEndian\<close> converts a 64-bit limb to big-endian.
  \<open>big_endian_bytes x\<close> is the memory image of \<open>ToBigEndian(x)\<close>: the eight bytes of
  \<open>x\<close>, the most significant first.
\<close>

definition big_endian_bytes :: "64 word \<Rightarrow> 8 word list" where
  "big_endian_bytes x = map (\<lambda>k. ucast (drop_bit (8 * (7 - k)) x)) [0..<8]"

text \<open>
  A \<open>Decimal128\<close> value is a 128-bit word in two's complement.
  \<open>reinterpret_cast<const uint64_t*>(data.GetValue(i))\<close> reads it as two limbs:
  \<open>[0]\<close> holds the low 64 bits and \<open>[1]\<close> the high 64 bits.
\<close>

definition limb0 :: "128 word \<Rightarrow> 64 word" where
  "limb0 v = ucast v"

definition limb1 :: "128 word \<Rightarrow> 64 word" where
  "limb1 v = ucast (drop_bit 64 v)"

definition valid_value_count :: "ArrayData \<Rightarrow> nat" where
  "valid_value_count d = (array_length d - null_count d) * 2"

text \<open>
  The two loops of the specialization as one: with \<open>does_not_have_nulls\<close> every slot is
  written, without it the slots that are not null. \<open>i\<close> is the slot, \<open>j\<close> the index
  into \<open>big_endian_values\<close>, a vector of \<open>valid_value_count\<close> limbs; \<open>buffer\<close> holds
  the \<open>FixedLenByteArray\<close>s written so far, each the bytes from its pointer
  \<open>&big_endian_values[j] + offset\<close> to the end of the limb pair, and is asked for with
  \<open>num_levels\<close> entries. The next entry is written at the index \<open>length buffer\<close>:
  \<open>i\<close> in the first loop, \<open>buffer_idx\<close> in the second. A value outside the values
  buffer, a limb outside the vector, a pointer outside the limb pair and an entry outside
  the buffer are \<open>OutOfBounds\<close>.
\<close>

function decimal_buffer ::
  "bool \<Rightarrow> ArrayData \<Rightarrow> 128 word list \<Rightarrow> nat \<Rightarrow> int \<Rightarrow> nat \<Rightarrow> nat \<Rightarrow> 64 word list
   \<Rightarrow> 8 word list list \<Rightarrow> error + 8 word list list" where
  "decimal_buffer does_not_have_nulls d raw num_levels offset i j big_endian_values buffer =
     (if i < array_length d then
        if does_not_have_nulls \<or> \<not> IsNull d i then
          if length raw \<le> array_offset d + i \<or> valid_value_count d < j + 2
             \<or> offset < 0 \<or> 16 < offset \<or> num_levels \<le> length buffer
          then Inl OutOfBounds
          else
            decimal_buffer does_not_have_nulls d raw num_levels offset (i + 1) (j + 2)
              (big_endian_values[j := limb1 (raw ! (array_offset d + i)),
                                 j + 1 := limb0 (raw ! (array_offset d + i))])
              (buffer @ [drop (nat offset)
                           (big_endian_bytes (limb1 (raw ! (array_offset d + i)))
                            @ big_endian_bytes (limb0 (raw ! (array_offset d + i))))])
        else decimal_buffer does_not_have_nulls d raw num_levels offset (i + 1) j
               big_endian_values buffer
      else Inr buffer)"
  by pat_completeness auto
termination
  by (relation "measure (\<lambda>(nn, d, raw, n, offset, i, j, bev, buffer). array_length d - i)") auto

declare decimal_buffer.simps [simp del]

definition TypedWriteBatch_Decimal128 ::
  "bool \<Rightarrow> int \<Rightarrow> nat \<Rightarrow> ArrayData \<Rightarrow> 128 word list \<Rightarrow> nat \<Rightarrow> levels \<Rightarrow> levels
   \<Rightarrow> error + (8 word list) writer_call" where
  "TypedWriteBatch_Decimal128 is_required byte_width precision d raw num_levels def_levels rep_levels =
     (let offset = byte_width - DecimalSize precision;
          does_not_have_nulls = (is_required \<or> null_count d = 0)
      in bindE (decimal_buffer does_not_have_nulls d raw num_levels offset 0 0
                  (replicate (valid_value_count d) 0) [])
           (\<lambda>buffer. Inr (WriteBatch num_levels def_levels rep_levels buffer)))"

text \<open>
  The big-endian two's-complement representation of an integer in \<open>n\<close> bytes: byte \<open>k\<close>
  holds the bits \<open>8 * (n - 1 - k)\<close> to \<open>8 * (n - 1 - k) + 7\<close> of the integer. Read back,
  the bytes give an unsigned number, and the signed number by the sign bit of the first
  byte.
\<close>

definition twos_complement_big_endian :: "nat \<Rightarrow> int \<Rightarrow> 8 word list" where
  "twos_complement_big_endian n x = map (\<lambda>k. word_of_int (drop_bit (8 * (n - 1 - k)) x)) [0..<n]"


fun big_endian_unsigned :: "8 word list \<Rightarrow> int" where
  "big_endian_unsigned [] = 0"
| "big_endian_unsigned (b # bs) = uint b * 256 ^ length bs + big_endian_unsigned bs"

definition big_endian_signed :: "8 word list \<Rightarrow> int" where
  "big_endian_signed bytes = signed_take_bit (8 * length bytes - 1) (big_endian_unsigned bytes)"

section \<open>Theorems\<close>

text \<open>
  C9. \<open>FileWriter::Close\<close> is idempotent. A first call (closed flag not set) sets the
  flag, closes the active row-group writer if there is one and then the file writer,
  stopping at the first exception. Whatever the first call returned, the flag is set
  afterwards, and every later call returns OK and leaves the writer, the row-group
  writer and the flag as they are.
\<close>

theorem Impl_Close_idempotent:
  "closed' (snd (Impl_Close u s))
   \<and> Impl_Close u (snd (Impl_Close u s)) = (OK, snd (Impl_Close u s))
   \<and> (closed' s \<longrightarrow> Impl_Close u s = (OK, s))
   \<and> (\<not> closed' s \<and> row_group_writer' s = None \<longrightarrow>
        writer' (snd (Impl_Close u s)) = snd (ParquetFileWriter_Close u (writer' s)))
   \<and> (\<not> closed' s \<and> row_group_writer' s \<noteq> None
        \<and> fst (RowGroupWriter_Close u (writer' s)) = None \<longrightarrow>
        writer' (snd (Impl_Close u s)) =
          snd (ParquetFileWriter_Close u (snd (RowGroupWriter_Close u (writer' s)))))
   \<and> (\<not> closed' s \<and> row_group_writer' s \<noteq> None
        \<and> fst (RowGroupWriter_Close u (writer' s)) \<noteq> None \<longrightarrow>
        writer' (snd (Impl_Close u s)) = snd (RowGroupWriter_Close u (writer' s))
        \<and> fst (Impl_Close u s) = Some (Caught (the (fst (RowGroupWriter_Close u (writer' s))))))"
proof -
  have flag: "closed' (snd (Impl_Close u s))"
    by (simp add: Impl_Close_def Let_def split: prod.splits option.splits)
  have again: "\<And>t. closed' t \<Longrightarrow> Impl_Close u t = (OK, t)"
    by (simp add: Impl_Close_def)
  have none: "\<not> closed' s \<and> row_group_writer' s = None \<longrightarrow>
        writer' (snd (Impl_Close u s)) = snd (ParquetFileWriter_Close u (writer' s))"
    by (simp add: Impl_Close_def Let_def split: prod.splits option.splits)
  have some_ok: "\<not> closed' s \<and> row_group_writer' s \<noteq> None
        \<and> fst (RowGroupWriter_Close u (writer' s)) = None \<longrightarrow>
        writer' (snd (Impl_Close u s)) =
          snd (ParquetFileWriter_Close u (snd (RowGroupWriter_Close u (writer' s))))"
    by (auto simp add: Impl_Close_def Let_def split: prod.splits option.splits)
  have some_err: "\<not> closed' s \<and> row_group_writer' s \<noteq> None
        \<and> fst (RowGroupWriter_Close u (writer' s)) \<noteq> None \<longrightarrow>
        writer' (snd (Impl_Close u s)) = snd (RowGroupWriter_Close u (writer' s))
        \<and> fst (Impl_Close u s) = Some (Caught (the (fst (RowGroupWriter_Close u (writer' s)))))"
    by (auto simp add: Impl_Close_def Let_def split: prod.splits option.splits)
  from flag again [OF flag] again none some_ok some_err show ?thesis
    by blast
qed

theorem Impl_Close_idempotent_witness:
  "fst (Impl_Close \<lparr> RowGroupWriter_Close = (\<lambda>w. (None, w @ [''row group closed''])),
                      ParquetFileWriter_Close = (\<lambda>w. (Some ''sink failed'', w @ [''file close tried''])) \<rparr>
          \<lparr> writer' = [], row_group_writer' = Some 0, closed' = False \<rparr>)
     = Some (Caught ''sink failed'')
   \<and> Impl_Close \<lparr> RowGroupWriter_Close = (\<lambda>w. (None, w @ [''row group closed''])),
                   ParquetFileWriter_Close = (\<lambda>w. (Some ''sink failed'', w @ [''file close tried''])) \<rparr>
        (snd (Impl_Close \<lparr> RowGroupWriter_Close = (\<lambda>w. (None, w @ [''row group closed''])),
                      ParquetFileWriter_Close = (\<lambda>w. (Some ''sink failed'', w @ [''file close tried''])) \<rparr>
          \<lparr> writer' = [], row_group_writer' = Some 0, closed' = False \<rparr>))
     = (OK, \<lparr> writer' = [''row group closed'', ''file close tried''],
                  row_group_writer' = Some 0, closed' = True \<rparr>)"
  using Impl_Close_idempotent
    [of "\<lparr> RowGroupWriter_Close = (\<lambda>w. (None, w @ [''row group closed''])),
           ParquetFileWriter_Close = (\<lambda>w. (Some ''sink failed'', w @ [''file close tried''])) \<rparr>"
        "\<lparr> writer' = [], row_group_writer' = Some 0, closed' = False \<rparr>"]
  by (simp add: Impl_Close_def)

text \<open>
  C3. The timestamp policy is chosen by the first matching rule: (1) Int96 when
  \<open>support_deprecated_int96_timestamps\<close> is set; (2) else, with coercion enabled, int64
  unchanged when the source unit is the coercion unit and coercion with the writer's own
  properties (so to that unit) otherwise; (3) else, for format version 1.0 and a source in
  nanoseconds, coercion to microseconds with truncation disallowed; (4) else, for a source
  in seconds, coercion to milliseconds with the builder's default properties; (5) else
  int64 unchanged.
\<close>

theorem WriteTimestamps_first_match:
  "(support_deprecated_int96_timestamps p \<longrightarrow>
      WriteTimestamps p v t = TypedWriteBatch_Int96_Timestamp)
   \<and> (\<not> support_deprecated_int96_timestamps p \<and> coerce_timestamps_enabled p
        \<and> unit t = coerce_timestamps_unit p \<longrightarrow>
      WriteTimestamps p v t = TypedWriteBatch_Int64_Timestamp)
   \<and> (\<not> support_deprecated_int96_timestamps p \<and> coerce_timestamps_enabled p
        \<and> unit t \<noteq> coerce_timestamps_unit p \<longrightarrow>
      WriteTimestamps p v t = Call_WriteTimestampsCoerce p)
   \<and> (\<not> support_deprecated_int96_timestamps p \<and> \<not> coerce_timestamps_enabled p
        \<and> v = PARQUET_1_0 \<and> unit t = NANO \<longrightarrow>
      WriteTimestamps p v t
        = Call_WriteTimestampsCoerce (disallow_truncated_timestamps (coerce_timestamps MICRO Builder))
      \<and> coerce_timestamps_unit (disallow_truncated_timestamps (coerce_timestamps MICRO Builder)) = MICRO
      \<and> \<not> truncated_timestamps_allowed (disallow_truncated_timestamps (coerce_timestamps MICRO Builder)))
   \<and> (\<not> support_deprecated_int96_timestamps p \<and> \<not> coerce_timestamps_enabled p
        \<and> \<not> (v = PARQUET_1_0 \<and> unit t = NANO) \<and> unit t = SECOND \<longrightarrow>
      WriteTimestamps p v t = Call_WriteTimestampsCoerce (coerce_timestamps MILLI Builder)
      \<and> coerce_timestamps_unit (coerce_timestamps MILLI Builder) = MILLI)
   \<and> (\<not> support_deprecated_int96_timestamps p \<and> \<not> coerce_timestamps_enabled p
        \<and> \<not> (v = PARQUET_1_0 \<and> unit t = NANO) \<and> unit t \<noteq> SECOND \<longrightarrow>
      WriteTimestamps p v t = TypedWriteBatch_Int64_Timestamp)"
  by (simp add: WriteTimestamps_def coerce_timestamps_def disallow_truncated_timestamps_def)

theorem WriteTimestamps_first_match_witness:
  "WriteTimestamps \<lparr> support_deprecated_int96_timestamps = True, coerce_timestamps_enabled = True,
                     coerce_timestamps_unit = MILLI, truncated_timestamps_allowed = False \<rparr>
                   PARQUET_1_0 \<lparr> unit = NANO, timezone = [] \<rparr>
     = TypedWriteBatch_Int96_Timestamp
   \<and> WriteTimestamps \<lparr> support_deprecated_int96_timestamps = False, coerce_timestamps_enabled = True,
                     coerce_timestamps_unit = MILLI, truncated_timestamps_allowed = True \<rparr>
                   PARQUET_1_0 \<lparr> unit = NANO, timezone = [] \<rparr>
     = Call_WriteTimestampsCoerce
         \<lparr> support_deprecated_int96_timestamps = False, coerce_timestamps_enabled = True,
           coerce_timestamps_unit = MILLI, truncated_timestamps_allowed = True \<rparr>
   \<and> WriteTimestamps Builder PARQUET_1_0 \<lparr> unit = NANO, timezone = [] \<rparr>
     = Call_WriteTimestampsCoerce
         \<lparr> support_deprecated_int96_timestamps = False, coerce_timestamps_enabled = True,
           coerce_timestamps_unit = MICRO, truncated_timestamps_allowed = False \<rparr>
   \<and> WriteTimestamps Builder PARQUET_2_0 \<lparr> unit = SECOND, timezone = [] \<rparr>
     = Call_WriteTimestampsCoerce
         \<lparr> support_deprecated_int96_timestamps = False, coerce_timestamps_enabled = True,
           coerce_timestamps_unit = MILLI, truncated_timestamps_allowed = False \<rparr>
   \<and> WriteTimestamps Builder PARQUET_2_0 \<lparr> unit = NANO, timezone = [] \<rparr>
     = TypedWriteBatch_Int64_Timestamp"
  using
    WriteTimestamps_first_match
      [of "\<lparr> support_deprecated_int96_timestamps = True, coerce_timestamps_enabled = True,
             coerce_timestamps_unit = MILLI, truncated_timestamps_allowed = False \<rparr>"
          PARQUET_1_0 "\<lparr> unit = NANO, timezone = [] \<rparr>"]
    WriteTimestamps_first_match
      [of "\<lparr> support_deprecated_int96_timestamps = False, coerce_timestamps_enabled = True,
             coerce_timestamps_unit = MILLI, truncated_timestamps_allowed = True \<rparr>"
          PARQUET_1_0 "\<lparr> unit = NANO, timezone = [] \<rparr>"]
    WriteTimestamps_first_match [of Builder PARQUET_1_0 "\<lparr> unit = NANO, timezone = [] \<rparr>"]
    WriteTimestamps_first_match [of Builder PARQUET_2_0 "\<lparr> unit = SECOND, timezone = [] \<rparr>"]
    WriteTimestamps_first_match [of Builder PARQUET_2_0 "\<lparr> unit = NANO, timezone = [] \<rparr>"]
  by (simp add: WriteTimestamps_def Builder_def coerce_timestamps_def disallow_truncated_timestamps_def)

subsection \<open>Chunked writes\<close>

lemma advance_to_offset_past_end:
  "chunk_index \<le> length chunks \<Longrightarrow>
   absolute_position = int (ChunkedArray_length (take chunk_index chunks)) \<Longrightarrow>
   int (ChunkedArray_length chunks) \<le> offset \<Longrightarrow>
   int (ChunkedArray_length chunks) \<le> fst (snd (advance_to_offset chunks offset chunk_index absolute_position))"
proof (induction chunks offset chunk_index absolute_position rule: advance_to_offset.induct)
  case (1 chunks offset chunk_index absolute_position)
  show ?case
  proof (cases "chunk_index < length chunks \<and> absolute_position < offset")
    case False
    then have stop: "advance_to_offset chunks offset chunk_index absolute_position
                     = (chunk_index, absolute_position, 0)"
      by (subst advance_to_offset.simps) (use False in auto)
    show ?thesis
    proof (cases "chunk_index < length chunks")
      case True
      with False have "offset \<le> absolute_position" by simp
      with "1.prems" stop show ?thesis by simp
    next
      case False
      with "1.prems" have "take chunk_index chunks = chunks" by simp
      with "1.prems" stop show ?thesis by simp
    qed
  next
    case True
    define chunk_length where "chunk_length = int (array_length (data (chunks ! chunk_index)))"
    have next_pos: "absolute_position + chunk_length
                    = int (ChunkedArray_length (take (chunk_index + 1) chunks))"
      using "1.prems"(2) True
      by (simp add: take_Suc_conv_app_nth ChunkedArray_length_def chunk_length_def)
    have "ChunkedArray_length (take (chunk_index + 1) chunks) \<le> ChunkedArray_length chunks"
    proof -
      have "chunks = take (chunk_index + 1) chunks @ drop (chunk_index + 1) chunks" by simp
      then have "ChunkedArray_length chunks
                 = ChunkedArray_length (take (chunk_index + 1) chunks)
                   + ChunkedArray_length (drop (chunk_index + 1) chunks)"
        unfolding ChunkedArray_length_def by (metis map_append sum_list.append)
      then show ?thesis by simp
    qed
    with next_pos "1.prems"(3) have no_break: "\<not> absolute_position + chunk_length > offset"
      by simp
    have step: "advance_to_offset chunks offset chunk_index absolute_position
                = advance_to_offset chunks offset (chunk_index + 1) (absolute_position + chunk_length)"
      by (subst advance_to_offset.simps) (use True no_break in \<open>simp add: chunk_length_def Let_def\<close>)
    have "int (ChunkedArray_length chunks)
          \<le> fst (snd (advance_to_offset chunks offset (chunk_index + 1) (absolute_position + chunk_length)))"
      using "1.IH" [OF True refl no_break [unfolded chunk_length_def]]
            True next_pos "1.prems"(3)
      by (simp add: chunk_length_def)
    with step show ?thesis by simp
  qed
qed

text \<open>
  C7 (as amended). For every chunked array of non-zero length, a chunked write whose
  offset lies at or past the end of the array (\<open>offset \<ge> length\<close>) fails with
  \<open>Invalid("Cannot write data at offset past end of chunked array")\<close>, whatever the
  size, and writes nothing.
\<close>

theorem Write_ChunkedArray_offset_past_end:
  assumes "0 < ChunkedArray_length chunks"
    and "int (ChunkedArray_length chunks) \<le> offset"
  shows "Write_ChunkedArray write1 chunks offset size' w
         = (Some (Invalid [Str ''Cannot write data at offset past end of chunked array'']), w)"
proof -
  obtain chunk_index absolute_position chunk_offset where
    adv: "advance_to_offset chunks offset 0 0 = (chunk_index, absolute_position, chunk_offset)"
    by (cases "advance_to_offset chunks offset 0 0") auto
  have "int (ChunkedArray_length chunks) \<le> fst (snd (advance_to_offset chunks offset 0 0))"
    by (rule advance_to_offset_past_end) (use assms in \<open>simp_all add: ChunkedArray_length_def\<close>)
  with adv have "int (ChunkedArray_length chunks) \<le> absolute_position" by simp
  with assms adv show ?thesis
    by (simp add: Write_ChunkedArray_def)
qed

theorem Write_ChunkedArray_offset_past_end_witness:
  "Write_ChunkedArray (\<lambda>a w. (OK, Suc w))
     [FlatArray (DataType INT32 [])
        \<lparr> array_length = 2, array_offset = 0, null_bitmap_data = None, null_count = 0 \<rparr> [1, 2 :: int],
      FlatArray (DataType INT32 [])
        \<lparr> array_length = 1, array_offset = 0, null_bitmap_data = None, null_count = 0 \<rparr> [3]]
     3 1 (0 :: nat)
   = (Some (Invalid [Str ''Cannot write data at offset past end of chunked array'']), 0)"
  by (rule Write_ChunkedArray_offset_past_end) (simp_all add: ChunkedArray_length_def)

text \<open>
  The claim C7 as stated, for every chunked array, fails on an empty one: the write of
  an empty chunked array at offset 3 returns OK.
\<close>

theorem Write_ChunkedArray_offset_past_end_counterexample:
  "int (ChunkedArray_length
          [FlatArray (DataType INT32 [])
             \<lparr> array_length = 0, array_offset = 0, null_bitmap_data = None, null_count = 0 \<rparr>
             ([] :: int list)]) \<le> 3
   \<and> Write_ChunkedArray (\<lambda>a w. (OK, Suc w))
       [FlatArray (DataType INT32 [])
          \<lparr> array_length = 0, array_offset = 0, null_bitmap_data = None, null_count = 0 \<rparr>
          ([] :: int list)]
       3 1 (0 :: nat)
     \<noteq> (Some (Invalid [Str ''Cannot write data at offset past end of chunked array'']), 0)"
  by (simp add: Write_ChunkedArray_def ChunkedArray_length_def)

text \<open>
  C10. For every chunked array of length 0 the chunked write returns OK at once, for every
  offset and size, also for an offset past the end: nothing is written (the single-array
  write is not called, the writer state is unchanged) and the offset check is not reached.
\<close>

theorem Write_ChunkedArray_empty:
  "ChunkedArray_length chunks = 0 \<Longrightarrow> Write_ChunkedArray write1 chunks offset size' w = (OK, w)"
  by (simp add: Write_ChunkedArray_def)

theorem Write_ChunkedArray_empty_witness:
  "Write_ChunkedArray (\<lambda>a w. (Some OutOfBounds, Suc w))
     [FlatArray (DataType INT32 [])
        \<lparr> array_length = 0, array_offset = 4, null_bitmap_data = None, null_count = 0 \<rparr>
        [1, 2, 3, 4 :: int]]
     7 5 (0 :: nat)
   = (OK, 0)"
  by (rule Write_ChunkedArray_empty) (simp add: ChunkedArray_length_def)

subsection \<open>Timestamp coercion\<close>

lemma DivideBy_no_loss:
  "array_length d \<le> length vals \<Longrightarrow> array_length d \<le> n \<Longrightarrow>
   (\<And>j. i \<le> j \<Longrightarrow> j < array_length d \<Longrightarrow> \<not> loses_data ta d vals factor j) \<Longrightarrow>
   DivideBy ta st tt d vals n factor i buffer
   = Inr (buffer @ map (\<lambda>j. int64_div (vals ! j) factor) [i..<array_length d])"
proof (induction ta st tt d vals n factor i buffer rule: DivideBy.induct)
  case (1 ta st tt d vals n factor i buffer)
  show ?case
  proof (cases "i < array_length d")
    case False
    then show ?thesis by (subst DivideBy.simps) simp
  next
    case True
    with "1.prems"(1) have inb: "\<not> length vals \<le> i" by simp
    from True "1.prems"(2) have room: "\<not> n \<le> i" by simp
    from "1.prems"(3) [of i] True have ok: "\<not> (\<not> ta \<and> \<not> IsNull d i \<and> int64_mod (vals ! i) factor \<noteq> 0)"
      by (simp add: loses_data_def)
    have "DivideBy ta st tt d vals n factor i buffer
          = DivideBy ta st tt d vals n factor (i + 1) (buffer @ [int64_div (vals ! i) factor])"
      by (subst DivideBy.simps) (use True inb ok room in auto)
    also have "\<dots> = Inr ((buffer @ [int64_div (vals ! i) factor])
                        @ map (\<lambda>j. int64_div (vals ! j) factor) [i + 1..<array_length d])"
      by (rule "1.IH" [OF True inb ok room "1.prems"(1,2)]) (use "1.prems"(3) in simp)
    finally show ?thesis using True by (simp add: upt_conv_Cons)
  qed
qed

lemma DivideBy_first_loss:
  "array_length d \<le> length vals \<Longrightarrow> array_length d \<le> n \<Longrightarrow> i \<le> k \<Longrightarrow> k < array_length d \<Longrightarrow>
   loses_data ta d vals factor k \<Longrightarrow>
   (\<And>j. i \<le> j \<Longrightarrow> j < k \<Longrightarrow> \<not> loses_data ta d vals factor j) \<Longrightarrow>
   DivideBy ta st tt d vals n factor i buffer
   = Inl (Invalid [Str ''Casting from '', PrintedTimestampType st, Str '' to '',
                   PrintedTimestampType tt, Str '' would lose data: '', PrintedInt64 (vals ! k)])"
proof (induction ta st tt d vals n factor i buffer rule: DivideBy.induct)
  case (1 ta st tt d vals n factor i buffer)
  from "1.prems" have True: "i < array_length d" and inb: "\<not> length vals \<le> i"
    and room: "\<not> n \<le> i" by simp_all
  show ?case
  proof (cases "i = k")
    case True
    with "1.prems" have "\<not> ta \<and> \<not> IsNull d i \<and> int64_mod (vals ! i) factor \<noteq> 0"
      by (simp add: loses_data_def)
    with \<open>i < array_length d\<close> inb True show ?thesis by (subst DivideBy.simps) simp
  next
    case False
    with "1.prems" have lt: "i < k" by simp
    from "1.prems"(6) [of i] lt have ok: "\<not> (\<not> ta \<and> \<not> IsNull d i \<and> int64_mod (vals ! i) factor \<noteq> 0)"
      by (simp add: loses_data_def)
    have "DivideBy ta st tt d vals n factor i buffer
          = DivideBy ta st tt d vals n factor (i + 1) (buffer @ [int64_div (vals ! i) factor])"
      by (subst DivideBy.simps) (use True inb ok room in auto)
    also have "\<dots> = Inl (Invalid [Str ''Casting from '', PrintedTimestampType st, Str '' to '',
                   PrintedTimestampType tt, Str '' would lose data: '', PrintedInt64 (vals ! k)])"
      by (rule "1.IH" [OF True inb ok room "1.prems"(1,2)]) (use lt "1.prems" in simp_all)
    finally show ?thesis .
  qed
qed

lemma MultiplyBy_result:
  "array_length d \<le> length vals \<Longrightarrow> array_length d \<le> n \<Longrightarrow>
   MultiplyBy d vals n factor i buffer
   = Inr (buffer @ map (\<lambda>j. vals ! j * factor) [i..<array_length d])"
proof (induction d vals n factor i buffer rule: MultiplyBy.induct)
  case (1 d vals n factor i buffer)
  show ?case
  proof (cases "i < array_length d")
    case False
    then show ?thesis by (subst MultiplyBy.simps) simp
  next
    case True
    with "1.prems" have inb: "\<not> (length vals \<le> i \<or> n \<le> i)" by simp
    have "MultiplyBy d vals n factor i buffer
          = MultiplyBy d vals n factor (i + 1) (buffer @ [vals ! i * factor])"
      by (subst MultiplyBy.simps) (use True inb in simp)
    also have "\<dots> = Inr ((buffer @ [vals ! i * factor])
                        @ map (\<lambda>j. vals ! j * factor) [i + 1..<array_length d])"
      by (rule "1.IH" [OF True inb "1.prems"])
    finally show ?thesis using True by (simp add: upt_conv_Cons)
  qed
qed


lemma sdiv_pos_bounds:
  fixes k l :: int
  assumes "0 < l"
  shows "- \<bar>k\<bar> \<le> k sdiv l \<and> k sdiv l \<le> \<bar>k\<bar>"
proof -
  have nonneg: "0 \<le> \<bar>k\<bar> div l" using assms by (simp add: pos_imp_zdiv_nonneg_iff)
  have le: "\<bar>k\<bar> div l \<le> \<bar>k\<bar>"
  proof (cases "k = 0")
    case True
    then show ?thesis by simp
  next
    case False
    then have "0 < \<bar>k\<bar>" by simp
    then show ?thesis by (rule int_div_le_self)
  qed
  have sg: "sgn l = 1" using assms by simp
  show ?thesis
  proof (cases "k < 0")
    case True
    then have "k sdiv l = - (\<bar>k\<bar> div l)"
      using assms by (simp add: signed_divide_int_def sg)
    with nonneg le show ?thesis by simp
  next
    case False
    then have "k = 0 \<or> 0 < k" by auto
    then have "k sdiv l = \<bar>k\<bar> div l"
      using assms by (auto simp add: signed_divide_int_def sg)
    with nonneg le show ?thesis by simp
  qed
qed

lemma sint_int64_div:
  assumes "0 < sint b"
  shows "sint (int64_div a b) = sint a sdiv sint b"
proof -
  have lo: "- (2 ^ 63) \<le> sint a" and hi: "sint a < 2 ^ 63"
    using sint_ge [of a] sint_lt [of a] by simp_all
  from lo hi have "\<bar>sint a\<bar> \<le> 2 ^ 63" by simp
  have b1: "- \<bar>sint a\<bar> \<le> sint a sdiv sint b" and b2: "sint a sdiv sint b \<le> \<bar>sint a\<bar>"
    using sdiv_pos_bounds [OF assms, of "sint a"] by simp_all
  have "- (2 ^ 63) \<le> sint a sdiv sint b"
    using b1 \<open>\<bar>sint a\<bar> \<le> 2 ^ 63\<close> by linarith
  moreover have "sint a sdiv sint b < 2 ^ 63"
  proof (cases "sint a < 0")
    case True
    then have "sint a sdiv sint b = - (\<bar>sint a\<bar> div sint b)"
      using assms by (simp add: signed_divide_int_def)
    moreover have "0 \<le> \<bar>sint a\<bar> div sint b" using assms by (simp add: pos_imp_zdiv_nonneg_iff)
    ultimately show ?thesis by simp
  next
    case False
    with hi b2 show ?thesis by simp
  qed
  ultimately show ?thesis
    by (simp add: int64_div_def sint_sbintrunc' signed_take_bit_int_eq_self)
qed

lemma int64_mod_eq_0_iff:
  assumes "0 < sint b"
  shows "int64_mod a b = 0 \<longleftrightarrow> sint b dvd sint a"
proof -
  define r where "r = sint a smod sint b"
  have "sint b \<noteq> 0" using assms by simp
  from smod_int_range [OF this, of "sint a"] assms
  have "\<bar>r\<bar> < sint b" by (auto simp add: r_def)
  moreover have "sint b < 2 ^ 63" using sint_lt [of b] by simp
  ultimately have small: "\<bar>r\<bar> < 2 ^ 64" by simp
  have "int64_mod a b = 0 \<longleftrightarrow> (2 :: int) ^ 64 dvd r"
    by (simp add: int64_mod_def r_def word_of_int_eq_0_iff)
  also have "\<dots> \<longleftrightarrow> r = 0"
  proof
    assume d: "(2 :: int) ^ 64 dvd r"
    show "r = 0"
    proof (rule ccontr)
      assume "r \<noteq> 0"
      from dvd_imp_le_int [OF this d] small show False by simp
    qed
  qed simp
  also have "\<dots> \<longleftrightarrow> \<bar>sint a\<bar> mod sint b = 0"
    using assms by (cases "sint a < 0"; cases "sint a = 0") (simp_all add: r_def signed_modulo_int_def)
  also have "\<dots> \<longleftrightarrow> sint b dvd sint a"
    by (simp add: mod_eq_0_iff_dvd)
  finally show ?thesis .
qed


lemma divide_entry:
  assumes "spec_divide_factor su tu = Some F"
  shows "kTimestampCoercionFactors ! TimeUnit_index su ! TimeUnit_index tu = (COERCE_DIVIDE, word_of_int F)"
    and "sint (word_of_int F :: 64 word) = F" and "0 < F"
  using assms
  by (cases su; cases tu;
      simp add: spec_divide_factor_def kTimestampCoercionFactors_def split: if_splits)+

lemma multiply_entry:
  assumes "spec_multiply_factor su tu = Some M"
  shows "kTimestampCoercionFactors ! TimeUnit_index su ! TimeUnit_index tu = (COERCE_MULTIPLY, word_of_int M)"
  using assms
  by (cases su; cases tu;
      simp add: spec_multiply_factor_def kTimestampCoercionFactors_def split: if_splits)

text \<open>
  C4. In a coercion with a dividing factor \<open>F\<close> (microseconds to milliseconds,
  nanoseconds to milliseconds, nanoseconds to microseconds) over an array whose validity
  bitmap and values buffer cover its slots and that has no more slots than there are
  levels: when truncation is allowed or every non-null value is divisible by
  \<open>F\<close>, the write goes on to the column writer with a buffer of the array's length
  whose entry \<open>i\<close> is value \<open>i\<close> divided by \<open>F\<close> and truncated towards zero
  (\<open>sdiv\<close>); when truncation is not allowed and some non-null value is not divisible by
  \<open>F\<close>, the write fails with \<open>Invalid\<close>, and the message is made of the source
  type, the target type and the first such value. In a coercion with a multiplying factor
  \<open>M\<close> the write never fails in the coercion and entry \<open>i\<close> is the 64-bit product of
  value \<open>i\<close> and \<open>M\<close>, which wraps around on overflow.
\<close>

theorem WriteTimestampsCoerce_divide_and_multiply:
  assumes bitmap: "bitmap_covers d"
    and buf: "array_offset d + array_length d \<le> length raw"
    and room: "array_length d \<le> num_levels"
    and vals: "vals = drop (array_offset d) raw"
    and res: "result = WriteTimestampsCoerce is_required p st d raw num_levels def_levels rep_levels"
  shows
    "(spec_divide_factor (unit st) (coerce_timestamps_unit p) = Some F \<longrightarrow>
        (truncated_timestamps_allowed p
           \<or> (\<forall>i<array_length d. IsNull d i \<or> F dvd sint (vals ! i)) \<longrightarrow>
         (\<exists>call. result = Inr call \<and> length (batch_values call) = array_length d
            \<and> (\<forall>i<array_length d. sint (batch_values call ! i) = sint (vals ! i) sdiv F)))
        \<and> (\<not> truncated_timestamps_allowed p
             \<and> (\<exists>i<array_length d. \<not> IsNull d i \<and> \<not> F dvd sint (vals ! i)) \<longrightarrow>
           (\<exists>k<array_length d. \<not> IsNull d k \<and> \<not> F dvd sint (vals ! k)
              \<and> (\<forall>j<k. IsNull d j \<or> F dvd sint (vals ! j))
              \<and> result = Inl (Invalid [Str ''Casting from '', PrintedTimestampType st,
                                       Str '' to '',
                                       PrintedTimestampType (timestamp (coerce_timestamps_unit p)),
                                       Str '' would lose data: '', PrintedInt64 (vals ! k)]))))
     \<and> (spec_multiply_factor (unit st) (coerce_timestamps_unit p) = Some M \<longrightarrow>
          (\<exists>call. result = Inr call \<and> length (batch_values call) = array_length d
             \<and> (\<forall>i<array_length d. batch_values call ! i = vals ! i * word_of_int M)))"
proof -
  let ?ta = "truncated_timestamps_allowed p"
  let ?tt = "timestamp (coerce_timestamps_unit p)"
  let ?n = "array_length d"
  from buf vals have len: "?n \<le> length vals" by simp
  have finish: "\<And>buffer. \<exists>call.
      bindE (Inr buffer)
        (\<lambda>buffer. if is_required \<or> null_count d = 0
                   then Inr (WriteBatch num_levels def_levels rep_levels buffer)
                   else Inr (WriteBatchSpaced num_levels def_levels rep_levels
                               (null_bitmap_data d) (array_offset d) buffer)) = Inr call
      \<and> batch_values call = buffer"
    by (simp add: bindE_def)
  let ?msg = "\<lambda>k. Invalid [Str ''Casting from '', PrintedTimestampType st, Str '' to '',
                          PrintedTimestampType ?tt, Str '' would lose data: '',
                          PrintedInt64 (vals ! k)]"
  have no_loss: "\<exists>call. result = Inr call \<and> length (batch_values call) = ?n
            \<and> (\<forall>i<?n. sint (batch_values call ! i) = sint (vals ! i) sdiv F)"
    if F: "spec_divide_factor (unit st) (coerce_timestamps_unit p) = Some F"
      and ok: "?ta \<or> (\<forall>i<?n. IsNull d i \<or> F dvd sint (vals ! i))"
  proof -
    note e = divide_entry [OF F]
    have pos: "0 < sint (word_of_int F :: 64 word)" using e(2,3) by simp
    have "\<not> loses_data ?ta d vals (word_of_int F) j" if "j < ?n" for j
      using ok that by (auto simp add: loses_data_def int64_mod_eq_0_iff [OF pos] e(2))
    then have "DivideBy ?ta st ?tt d vals num_levels (word_of_int F) 0 []
               = Inr ([] @ map (\<lambda>j. int64_div (vals ! j) (word_of_int F)) [0..<?n])"
      by (intro DivideBy_no_loss [OF len room]) simp
    then have r: "result = bindE (Inr (map (\<lambda>j. int64_div (vals ! j) (word_of_int F)) [0..<?n]))
        (\<lambda>buffer. if is_required \<or> null_count d = 0
                   then Inr (WriteBatch num_levels def_levels rep_levels buffer)
                   else Inr (WriteBatchSpaced num_levels def_levels rep_levels
                               (null_bitmap_data d) (array_offset d) buffer))"
      by (simp add: res WriteTimestampsCoerce_def Let_def e(1) vals)
    from finish [of "map (\<lambda>j. int64_div (vals ! j) (word_of_int F)) [0..<?n]"] r
    obtain call where c: "result = Inr call"
      "batch_values call = map (\<lambda>j. int64_div (vals ! j) (word_of_int F)) [0..<?n]"
      by auto
    have "sint (batch_values call ! i) = sint (vals ! i) sdiv F" if "i < ?n" for i
      using that by (simp add: c(2) sint_int64_div [OF pos] e(2))
    with c show ?thesis by simp
  qed
  have loss: "\<exists>k<?n. \<not> IsNull d k \<and> \<not> F dvd sint (vals ! k)
              \<and> (\<forall>j<k. IsNull d j \<or> F dvd sint (vals ! j))
              \<and> result = Inl (?msg k)"
    if F: "spec_divide_factor (unit st) (coerce_timestamps_unit p) = Some F"
      and ta: "\<not> ?ta" and ex: "\<exists>i<?n. \<not> IsNull d i \<and> \<not> F dvd sint (vals ! i)"
  proof -
    note e = divide_entry [OF F]
    have pos: "0 < sint (word_of_int F :: 64 word)" using e(2,3) by simp
    let ?bad = "\<lambda>i. i < ?n \<and> \<not> IsNull d i \<and> \<not> F dvd sint (vals ! i)"
    from ex have "\<exists>i. ?bad i" by auto
    then obtain k where k: "?bad k" and least: "\<forall>j<k. \<not> ?bad j"
      using exists_least_iff [of ?bad] by auto
    have l1: "loses_data ?ta d vals (word_of_int F) k"
      using k ta by (simp add: loses_data_def int64_mod_eq_0_iff [OF pos] e(2))
    have l2: "\<not> loses_data ?ta d vals (word_of_int F) j" if "j < k" for j
      using least that k by (auto simp add: loses_data_def int64_mod_eq_0_iff [OF pos] e(2))
    have "DivideBy ?ta st ?tt d vals num_levels (word_of_int F) 0 [] = Inl (?msg k)"
      by (rule DivideBy_first_loss [OF len room _ _ l1]) (use k l2 in simp_all)
    then have "result = Inl (?msg k)"
      by (simp add: res WriteTimestampsCoerce_def Let_def e(1) vals bindE_def)
    moreover have "\<forall>j<k. IsNull d j \<or> F dvd sint (vals ! j)"
      using least k by auto
    ultimately show ?thesis using k by blast
  qed
  have mult: "\<exists>call. result = Inr call \<and> length (batch_values call) = ?n
             \<and> (\<forall>i<?n. batch_values call ! i = vals ! i * word_of_int M)"
    if M: "spec_multiply_factor (unit st) (coerce_timestamps_unit p) = Some M"
  proof -
    note e = multiply_entry [OF M]
    have ne: "COERCE_MULTIPLY \<noteq> COERCE_DIVIDE" by (simp add: COERCE_MULTIPLY_def COERCE_DIVIDE_def)
    have "MultiplyBy d vals num_levels (word_of_int M) 0 []
          = Inr ([] @ map (\<lambda>j. vals ! j * word_of_int M) [0..<?n])"
      by (rule MultiplyBy_result [OF len room])
    then have r: "result = bindE (Inr (map (\<lambda>j. vals ! j * word_of_int M) [0..<?n]))
        (\<lambda>buffer. if is_required \<or> null_count d = 0
                   then Inr (WriteBatch num_levels def_levels rep_levels buffer)
                   else Inr (WriteBatchSpaced num_levels def_levels rep_levels
                               (null_bitmap_data d) (array_offset d) buffer))"
      by (simp add: res WriteTimestampsCoerce_def Let_def e ne vals)
    from finish [of "map (\<lambda>j. vals ! j * word_of_int M) [0..<?n]"] r
    obtain call where c: "result = Inr call"
      "batch_values call = map (\<lambda>j. vals ! j * word_of_int M) [0..<?n]"
      by auto
    then show ?thesis by simp
  qed
  from no_loss loss mult show ?thesis by blast
qed

theorem WriteTimestampsCoerce_divide_and_multiply_witness:
  "(\<exists>call. WriteTimestampsCoerce False
       \<lparr> support_deprecated_int96_timestamps = False, coerce_timestamps_enabled = True,
         coerce_timestamps_unit = MICRO, truncated_timestamps_allowed = True \<rparr>
       \<lparr> unit = NANO, timezone = [] \<rparr>
       \<lparr> array_length = 2, array_offset = 1, null_bitmap_data = None, null_count = 0 \<rparr>
       [7, 1500000000, - 2500] 2 None None = Inr call
     \<and> length (batch_values call) = 2
     \<and> sint (batch_values call ! 0) = 1500000
     \<and> sint (batch_values call ! 1) = - 2)
   \<and> WriteTimestampsCoerce False
       \<lparr> support_deprecated_int96_timestamps = False, coerce_timestamps_enabled = True,
         coerce_timestamps_unit = MICRO, truncated_timestamps_allowed = False \<rparr>
       \<lparr> unit = NANO, timezone = [] \<rparr>
       \<lparr> array_length = 2, array_offset = 1, null_bitmap_data = None, null_count = 0 \<rparr>
       [7, 1500000000, 1500000500] 2 None None
     = Inl (Invalid [Str ''Casting from '', PrintedTimestampType \<lparr> unit = NANO, timezone = [] \<rparr>,
                     Str '' to '', PrintedTimestampType \<lparr> unit = MICRO, timezone = [] \<rparr>,
                     Str '' would lose data: '', PrintedInt64 1500000500])
   \<and> WriteTimestampsCoerce False
       \<lparr> support_deprecated_int96_timestamps = False, coerce_timestamps_enabled = True,
         coerce_timestamps_unit = NANO, truncated_timestamps_allowed = False \<rparr>
       \<lparr> unit = SECOND, timezone = [] \<rparr>
       \<lparr> array_length = 2, array_offset = 0, null_bitmap_data = None, null_count = 0 \<rparr>
       [3, 9223372037] 2 None None
     = Inr (WriteBatch 2 None None [3000000000, - 9223372036709551616])"
proof -
  let ?d = "\<lparr> array_length = 2, array_offset = 1, null_bitmap_data = None, null_count = 0 \<rparr>"
  let ?p = "\<lparr> support_deprecated_int96_timestamps = False, coerce_timestamps_enabled = True,
              coerce_timestamps_unit = MICRO, truncated_timestamps_allowed = True \<rparr>"
  let ?st = "\<lparr> unit = NANO, timezone = [] \<rparr>"
  have covered: "array_offset ?d + array_length ?d \<le> length [7, 1500000000, - 2500 :: 64 word]"
    by simp
  have bitmap: "bitmap_covers ?d" by (simp add: bitmap_covers_def)
  have room: "array_length ?d \<le> 2" by simp
  have factor: "spec_divide_factor (unit ?st) (coerce_timestamps_unit ?p) = Some 1000"
    by (simp add: spec_divide_factor_def)
  from WriteTimestampsCoerce_divide_and_multiply
         [OF bitmap covered room refl refl, where is_required = False and p = ?p and st = ?st
            and def_levels = None and rep_levels = None and F = 1000 and M = 0]
       factor
  obtain call where call:
    "WriteTimestampsCoerce False ?p ?st ?d [7, 1500000000, - 2500] 2 None None = Inr call"
    "length (batch_values call) = 2"
    "\<forall>i<2. sint (batch_values call ! i)
            = sint (drop 1 [7, 1500000000, - 2500 :: 64 word] ! i) sdiv 1000"
    by auto
  from call(3) have "sint (batch_values call ! 0) = sint (1500000000 :: 64 word) sdiv 1000"
    and "sint (batch_values call ! 1) = sint (- 2500 :: 64 word) sdiv 1000"
    by simp_all
  then have v: "sint (batch_values call ! 0) = 1500000" "sint (batch_values call ! 1) = - 2"
    by (simp_all add: signed_divide_int_def)
  have lose: "WriteTimestampsCoerce False
       \<lparr> support_deprecated_int96_timestamps = False, coerce_timestamps_enabled = True,
         coerce_timestamps_unit = MICRO, truncated_timestamps_allowed = False \<rparr>
       \<lparr> unit = NANO, timezone = [] \<rparr>
       \<lparr> array_length = 2, array_offset = 1, null_bitmap_data = None, null_count = 0 \<rparr>
       [7, 1500000000, 1500000500] 2 None None
     = Inl (Invalid [Str ''Casting from '', PrintedTimestampType \<lparr> unit = NANO, timezone = [] \<rparr>,
                     Str '' to '', PrintedTimestampType \<lparr> unit = MICRO, timezone = [] \<rparr>,
                     Str '' would lose data: '', PrintedInt64 1500000500])"
    by code_simp
  have wrap: "WriteTimestampsCoerce False
       \<lparr> support_deprecated_int96_timestamps = False, coerce_timestamps_enabled = True,
         coerce_timestamps_unit = NANO, truncated_timestamps_allowed = False \<rparr>
       \<lparr> unit = SECOND, timezone = [] \<rparr>
       \<lparr> array_length = 2, array_offset = 0, null_bitmap_data = None, null_count = 0 \<rparr>
       [3, 9223372037] 2 None None
     = Inr (WriteBatch 2 None None [3000000000, - 9223372036709551616])"
    by code_simp
  from call(1,2) v lose wrap show ?thesis by blast
qed

subsection \<open>Level generation\<close>

lemma GetBit_in_range: "i < 8 * length bits \<Longrightarrow> GetBit bits i = Some (bit (bits ! (i div 8)) (i mod 8))"
  by (simp add: GetBit_def less_mult_imp_div_less mult.commute)

lemma primitive_def_levels_result:
  "start_offset + n \<le> 8 * length bitmap \<Longrightarrow>
   primitive_def_levels bitmap start_offset n i acc
   = Inr (acc @ map (\<lambda>j. if GetBit bitmap (start_offset + j) = Some True then 1 else 0) [i..<n])"
proof (induction bitmap start_offset n i acc rule: primitive_def_levels.induct)
  case (1 bitmap start_offset n i acc)
  show ?case
  proof (cases "i < n")
    case False
    then show ?thesis by (subst primitive_def_levels.simps) simp
  next
    case True
    with "1.prems" have inb: "start_offset + i < 8 * length bitmap" by simp
    let ?b = "bit (bitmap ! ((start_offset + i) div 8)) ((start_offset + i) mod 8)"
    have g: "GetBit bitmap (start_offset + i) = Some ?b" by (rule GetBit_in_range [OF inb])
    have "primitive_def_levels bitmap start_offset n i acc
          = primitive_def_levels bitmap start_offset n (i + 1) (acc @ [if ?b then 1 else 0])"
      by (subst primitive_def_levels.simps) (simp add: True g)
    also have "\<dots> = Inr ((acc @ [if ?b then 1 else 0])
          @ map (\<lambda>j. if GetBit bitmap (start_offset + j) = Some True then 1 else 0) [i + 1..<n])"
      by (rule "1.IH" [OF True g "1.prems"])
    finally show ?thesis using True by (simp add: upt_conv_Cons g)
  qed
qed

lemma filter_all: "length (filter P xs) = length xs \<Longrightarrow> x \<in> set xs \<Longrightarrow> P x"
proof (induction xs)
  case Nil
  then show ?case by simp
next
  case (Cons a xs)
  have le: "length (filter P xs) \<le> length xs" by simp
  show ?case
  proof (cases "P a")
    case True
    with Cons show ?thesis by auto
  next
    case False
    with Cons.prems(1) le show ?thesis by simp
  qed
qed

lemma filter_none: "length (filter P xs) = 0 \<Longrightarrow> x \<in> set xs \<Longrightarrow> \<not> P x"
  by (auto simp add: filter_empty_conv)

lemma primitive_levels_result:
  assumes wf: "well_formed d"
  shows "\<exists>dl. primitive_levels d = Inr dl \<and> length dl = array_length d
           \<and> (\<forall>i<array_length d. dl ! i = (if IsValid d i then 1 else 0))"
proof -
  let ?n = "array_length d"
  from wf have nc: "null_count d = count_nulls (null_bitmap_data d) (array_offset d) ?n"
    by (simp add: well_formed_def)
  show ?thesis
  proof (cases "null_count d = 0")
    case True
    have "IsValid d i" if "i < ?n" for i
    proof (cases "null_bitmap_data d")
      case None
      then show ?thesis by (simp add: IsValid_def)
    next
      case (Some bits)
      with nc True have "length (filter (\<lambda>i. GetBit bits (array_offset d + i) \<noteq> Some True) [0..<?n]) = 0"
        by (simp add: count_nulls_def)
      from filter_none [OF this, of i] that have "GetBit bits (array_offset d + i) = Some True"
        by simp
      with Some show ?thesis by (simp add: IsValid_def)
    qed
    with True show ?thesis by (simp add: primitive_levels_def)
  next
    case False
    with nc obtain bits where bits: "null_bitmap_data d = Some bits"
      by (cases "null_bitmap_data d") (simp_all add: count_nulls_def)
    from wf bits have cover: "array_offset d + ?n \<le> 8 * length bits"
      by (simp add: well_formed_def bitmap_covers_def)
    show ?thesis
    proof (cases "null_count d = ?n")
      case True
      have "\<not> IsValid d i" if "i < ?n" for i
      proof -
        from nc True bits
        have "length (filter (\<lambda>i. GetBit bits (array_offset d + i) \<noteq> Some True) [0..<?n])
              = length [0..<?n]"
          by (simp add: count_nulls_def)
        from filter_all [OF this, of i] that have "GetBit bits (array_offset d + i) \<noteq> Some True"
          by simp
        with bits show ?thesis by (simp add: IsValid_def)
      qed
      with True False show ?thesis by (simp add: primitive_levels_def)
    next
      case mixed: False
      have "primitive_levels d
            = Inr ([] @ map (\<lambda>j. if GetBit bits (array_offset d + j) = Some True then 1 else 0) [0..<?n])"
        using False mixed bits primitive_def_levels_result [OF cover, of 0 "[]"]
        by (simp add: primitive_levels_def)
      then show ?thesis using bits by (simp add: IsValid_def)
    qed
  qed
qed

lemma primitive_levels_fast_paths:
  "null_count d = 0 \<Longrightarrow> primitive_levels d = Inr (replicate (array_length d) 1)"
  "null_count d = array_length d \<Longrightarrow> primitive_levels d = Inr (replicate (array_length d) 0)"
  by (simp_all add: primitive_levels_def)

text \<open>
  C1. For every nullable primitive array (a flat array that satisfies the array
  invariant) passed with a nullable field without children to \<open>GenerateLevels\<close> of a new
  \<open>LevelBuilder\<close>: the call returns OK, the definition levels have the length of the
  array, the repetition levels are null, \<open>num_levels\<close> is the length of the array, the
  definition level at \<open>i\<close> is 1 if slot \<open>i\<close> is valid and 0 if not, all levels are 1
  when the null count is 0, and all are 0 when the null count is the length.
\<close>

theorem GenerateLevels_nullable_primitive:
  assumes leaf: "num_children (field_type field) = 0"
    and nullable: "nullable field"
    and wf: "well_formed d"
    and fresh: "nullable' s = []"
  shows "\<exists>g dl. GenerateLevels (FlatArray t d v) field s = Inr g
           \<and> out_def_levels g = Some dl \<and> length dl = array_length d
           \<and> out_rep_levels g = None
           \<and> out_num_levels g = int (array_length d)
           \<and> (\<forall>i<array_length d. (dl ! i = 1 \<longleftrightarrow> IsValid d i) \<and> (dl ! i = 0 \<longleftrightarrow> \<not> IsValid d i))
           \<and> (null_count d = 0 \<longrightarrow> dl = replicate (array_length d) 1)
           \<and> (null_count d = array_length d \<longrightarrow> dl = replicate (array_length d) 0)"
proof -
  from primitive_levels_result [OF wf] obtain dl where dl:
    "primitive_levels d = Inr dl" "length dl = array_length d"
    "\<forall>i<array_length d. dl ! i = (if IsValid d i then 1 else 0)"
    by blast
  have walk: "collect_nullable field [nullable field] = Inr [True]"
    using leaf nullable by (subst collect_nullable.simps) simp
  have g: "GenerateLevels (FlatArray t d v) field s
        = Inr \<lparr> out_values_offset = 0, out_num_values = int (array_length d) - 0,
                out_num_levels = int (array_length d), out_def_levels = Some dl,
                out_rep_levels = None, out_values_array = Some (FlatArray t d v) \<rparr>"
    by (simp add: GenerateLevels_def fresh walk dl(1) Let_def)
  have "null_count d = 0 \<longrightarrow> dl = replicate (array_length d) 1"
    using dl(1) primitive_levels_fast_paths(1) [of d] by auto
  moreover have "null_count d = array_length d \<longrightarrow> dl = replicate (array_length d) 0"
    using dl(1) primitive_levels_fast_paths(2) [of d] by auto
  moreover have "\<forall>i<array_length d. (dl ! i = 1 \<longleftrightarrow> IsValid d i) \<and> (dl ! i = 0 \<longleftrightarrow> \<not> IsValid d i)"
    using dl(3) by simp
  ultimately show ?thesis using g dl(2) by simp
qed

theorem GenerateLevels_nullable_primitive_witness:
  "well_formed \<lparr> array_length = 5, array_offset = 1, null_bitmap_data = Some [42], null_count = 2 \<rparr>
   \<and> GenerateLevels
       (FlatArray (DataType INT32 [])
          \<lparr> array_length = 5, array_offset = 1, null_bitmap_data = Some [42], null_count = 2 \<rparr>
          [9, 1, 0, 3, 0, 5 :: int])
       (Field ''x'' (DataType INT32 []) True) LevelBuilder_new
     = Inr \<lparr> out_values_offset = 0, out_num_values = 5, out_num_levels = 5,
             out_def_levels = Some [1, 0, 1, 0, 1], out_rep_levels = None,
             out_values_array = Some (FlatArray (DataType INT32 [])
               \<lparr> array_length = 5, array_offset = 1, null_bitmap_data = Some [42], null_count = 2 \<rparr>
               [9, 1, 0, 3, 0, 5]) \<rparr>
   \<and> IsValid \<lparr> array_length = 5, array_offset = 1, null_bitmap_data = Some [42], null_count = 2 \<rparr> 0
   \<and> \<not> IsValid \<lparr> array_length = 5, array_offset = 1, null_bitmap_data = Some [42], null_count = 2 \<rparr> 1"
proof -
  let ?d = "\<lparr> array_length = 5, array_offset = 1, null_bitmap_data = Some [42], null_count = 2 \<rparr>"
  let ?a = "FlatArray (DataType INT32 []) ?d [9, 1, 0, 3, 0, 5 :: int]"
  let ?f = "Field ''x'' (DataType INT32 []) True"
  have wf: "well_formed ?d" by code_simp
  have leaf: "num_children (field_type ?f) = 0" by (simp add: num_children_def)
  have fresh: "nullable' (LevelBuilder_new :: int list LevelBuilder) = []"
    by (simp add: LevelBuilder_new_def)
  from GenerateLevels_nullable_primitive [OF leaf _ wf fresh, of "DataType INT32 []" "[9, 1, 0, 3, 0, 5 :: int]"]
  obtain g dl where g: "GenerateLevels ?a ?f LevelBuilder_new = Inr g"
    "out_def_levels g = Some dl" "length dl = 5" "out_rep_levels g = None" "out_num_levels g = 5"
    "\<forall>i<5. (dl ! i = 1 \<longleftrightarrow> IsValid ?d i) \<and> (dl ! i = 0 \<longleftrightarrow> \<not> IsValid ?d i)"
    by auto
  have ev: "GenerateLevels ?a ?f LevelBuilder_new
     = Inr \<lparr> out_values_offset = 0, out_num_values = 5, out_num_levels = 5,
             out_def_levels = Some [1, 0, 1, 0, 1], out_rep_levels = None,
             out_values_array = Some ?a \<rparr>"
    by code_simp
  with g(1,2) have "dl = [1, 0, 1, 0, 1]" by simp
  with g(6) have "\<forall>i<5. ([1, 0, 1, 0, 1 :: 16 word] ! i = 1) = IsValid ?d i" by simp
  from this [rule_format, of 0] this [rule_format, of 1]
  have "IsValid ?d 0" and "\<not> IsValid ?d 1" by simp_all
  with wf ev show ?thesis by simp
qed

text \<open>
  C2. For the \<open>list<int32>\<close> array \<open>[[1,2], null, [], [3]]\<close> with a nullable list field
  and a non-nullable item field, \<open>GenerateLevels\<close> produces the repetition levels
  \<open>[0,1,0,0,0]\<close> and the definition levels \<open>[2,2,0,1,2]\<close>, five levels in all, and
  \<open>values_offset = 0\<close> and \<open>num_values = 3\<close>; the slice of the leaf array that
  \<open>Write\<close> cuts with them and hands to the \<open>int32\<close> materializer holds exactly
  \<open>[1,2,3]\<close>.
\<close>

theorem GenerateLevels_list_int32_example:
  "GenerateLevels list_int32_example list_int32_field LevelBuilder_new
     = Inr \<lparr> out_values_offset = 0, out_num_values = 3, out_num_levels = 5,
             out_def_levels = Some [2, 2, 0, 1, 2], out_rep_levels = Some [0, 1, 0, 0, 0],
             out_values_array =
               Some (FlatArray (DataType INT32 [])
                       \<lparr> array_length = 3, array_offset = 0, null_bitmap_data = None,
                         null_count = 0 \<rparr>
                       [1, 2, 3]) \<rparr>
   \<and> (\<exists>values_array.
         Write_Array PARQUET_1_0 list_int32_field list_int32_example
           = Inr (Some (Call_TypedWriteBatch Int32Type arrow_Int32Type values_array 5
                          (Some [2, 2, 0, 1, 2]) (Some [0, 1, 0, 0, 0])))
         \<and> visible_values values_array = [1, 2, 3])"
proof -
  have "Write_Array PARQUET_1_0 list_int32_field list_int32_example
           = Inr (Some (Call_TypedWriteBatch Int32Type arrow_Int32Type
                   (FlatArray (DataType INT32 [])
                       \<lparr> array_length = 3, array_offset = 0, null_bitmap_data = None,
                         null_count = 0 \<rparr>
                       [1, 2, 3]) 5
                          (Some [2, 2, 0, 1, 2]) (Some [0, 1, 0, 0, 0])))"
    by code_simp
  moreover have "GenerateLevels list_int32_example list_int32_field LevelBuilder_new
     = Inr \<lparr> out_values_offset = 0, out_num_values = 3, out_num_levels = 5,
             out_def_levels = Some [2, 2, 0, 1, 2], out_rep_levels = Some [0, 1, 0, 0, 0],
             out_values_array =
               Some (FlatArray (DataType INT32 [])
                       \<lparr> array_length = 3, array_offset = 0, null_bitmap_data = None,
                         null_count = 0 \<rparr>
                       [1, 2, 3]) \<rparr>"
    by code_simp
  ultimately show ?thesis by simp
qed

subsection \<open>Fields with more than one child\<close>

lemma collect_nullable_multi_child:
  "multi_child_on_path (field_type f) \<Longrightarrow>
   collect_nullable f acc
   = Inl (NotImplemented [Str ''Fields with more than one child are not supported.''])"
proof (induction f acc rule: collect_nullable.induct)
  case (1 current_field nullable_acc)
  let ?t = "field_type current_field"
  show ?case
  proof (cases "num_children ?t > 1")
    case True
    then show ?thesis by (subst collect_nullable.simps) simp
  next
    case False
    with "1.prems" have one: "num_children ?t = 1" and
      deeper: "multi_child_on_path (field_type (child ?t 0))"
      by (subst (asm) multi_child_on_path.simps, simp split: if_splits)+
    from one have pos: "0 < num_children ?t" by simp
    have "collect_nullable current_field nullable_acc
          = collect_nullable (child ?t 0) (nullable_acc @ [nullable (child ?t 0)])"
      by (subst collect_nullable.simps) (simp add: one)
    also have "\<dots> = Inl (NotImplemented [Str ''Fields with more than one child are not supported.''])"
      by (rule "1.IH" [OF pos False deeper])
    finally show ?thesis .
  qed
qed

text \<open>
  C8 (as amended). When the array is not empty, \<open>GetLeafType\<close> accepts the array's type,
  the visit of the array succeeds (the array is a flat array, or list arrays nested down
  to a flat array, with offsets inside their buffers), and the field's type path contains a
  type with more than one child, the column write fails with
  \<open>NotImplemented("Fields with more than one child are not supported.")\<close>.
\<close>

theorem Write_Array_multi_child_field:
  assumes nonempty: "array_length (data array) \<noteq> 0"
    and leaf: "GetLeafType (array_type array) = Inr values_type"
    and visit: "VisitInline array
                  (LevelBuilder_new\<lparr> min_offset_idx' := 0,
                                     max_offset_idx' := int (array_length (data array)) \<rparr>) = Inr s1"
    and multi: "multi_child_on_path (field_type field')"
  shows "Write_Array version field' array
         = Inl (NotImplemented [Str ''Fields with more than one child are not supported.''])"
  using nonempty
  by (simp add: Write_Array_def leaf GenerateLevels_def visit
                collect_nullable_multi_child [OF multi])

theorem Write_Array_multi_child_field_witness:
  "Write_Array PARQUET_1_0 (Field ''s'' struct_of_two True)
     (FlatArray (DataType INT32 [])
        \<lparr> array_length = 2, array_offset = 0, null_bitmap_data = None, null_count = 0 \<rparr>
        [1, 2 :: int])
   = Inl (NotImplemented [Str ''Fields with more than one child are not supported.''])"
  by (rule Write_Array_multi_child_field [where values_type = INT32]) code_simp+

text \<open>
  The claim C8 as stated fails where the write returns before the fields are walked. With
  a field of a struct type with two children: an empty struct array is written with OK, and
  a struct array of length 2 fails in \<open>GetLeafType\<close> with \<open>Invalid\<close>.
\<close>

theorem Write_Array_multi_child_field_counterexample:
  "multi_child_on_path (field_type (Field ''s'' struct_of_two True))
   \<and> Write_Array PARQUET_1_0 (Field ''s'' struct_of_two True)
       (OtherArray Struct struct_of_two
          \<lparr> array_length = 0, array_offset = 0, null_bitmap_data = None, null_count = 0 \<rparr>
        :: int list Array)
     = Inr None
   \<and> Write_Array PARQUET_1_0 (Field ''s'' struct_of_two True)
       (OtherArray Struct struct_of_two
          \<lparr> array_length = 2, array_offset = 0, null_bitmap_data = None, null_count = 0 \<rparr>
        :: int list Array)
     = Inl (Invalid [Str ''Nested column branch had multiple children: '',
                     PrintedDataType struct_of_two])
   \<and> Write_Array PARQUET_1_0 (Field ''s'' struct_of_two True)
       (OtherArray Struct struct_of_two
          \<lparr> array_length = 2, array_offset = 0, null_bitmap_data = None, null_count = 0 \<rparr>
        :: int list Array)
     \<noteq> Inl (NotImplemented [Str ''Fields with more than one child are not supported.''])"
  by code_simp

subsection \<open>Dense and spaced writes\<close>

lemma boolean_buffer_result:
  assumes "int (array_offset d) + int (array_length d) \<le> 8 * int (length bits)"
  shows "boolean_buffer d (Some bits) i buffer
         = Inr (buffer @ map (\<lambda>k. bit (bits ! ((array_offset d + k) div 8)) ((array_offset d + k) mod 8))
                           (filter (\<lambda>k. \<not> IsNull d k) [i..<array_length d]))"
  using assms
proof (induction d "Some bits" i buffer rule: boolean_buffer.induct)
  case (1 d i buffer)
  show ?case
  proof (cases "i < array_length d")
    case False
    then show ?thesis by (subst boolean_buffer.simps) simp
  next
    case True
    then have upt: "[i..<array_length d] = i # [i + 1..<array_length d]"
      by (simp add: upt_conv_Cons)
    from True "1.prems" have "array_offset d + i < 8 * length bits" by simp
    then have g: "bit_at (Some bits) (int (array_offset d) + int i)
             = Some (bit (bits ! ((array_offset d + i) div 8)) ((array_offset d + i) mod 8))"
      by (simp add: bit_at_def GetBit_in_range nat_add_distrib)
    show ?thesis
    proof (cases "IsNull d i")
      case True
      have "boolean_buffer d (Some bits) i buffer = boolean_buffer d (Some bits) (i + 1) buffer"
        by (subst boolean_buffer.simps) (use \<open>i < array_length d\<close> True in simp)
      also note "1.hyps"(2) [OF \<open>i < array_length d\<close> _ "1.prems"]
      finally show ?thesis using True by (simp add: upt)
    next
      case False
      have "boolean_buffer d (Some bits) i buffer
            = boolean_buffer d (Some bits) (i + 1)
                (buffer @ [bit (bits ! ((array_offset d + i) div 8)) ((array_offset d + i) mod 8)])"
        by (subst boolean_buffer.simps) (use True False g in simp)
      also note "1.hyps"(1) [OF True False g "1.prems"]
      finally show ?thesis using False by (simp add: upt)
    qed
  qed
qed


lemma WriteTimestampsCoerce_mode:
  assumes "WriteTimestampsCoerce is_required p st d raw num_levels def_levels rep_levels = Inr call"
  shows "(is_dense call \<longleftrightarrow> is_required \<or> null_count d = 0)
         \<and> (\<not> is_dense call \<longrightarrow>
              call = WriteBatchSpaced num_levels def_levels rep_levels
                       (null_bitmap_data d) (array_offset d) (batch_values call))"
  using assms
  by (auto simp add: WriteTimestampsCoerce_def Let_def bindE_def split: sum.splits if_splits)

text \<open>
  C5 (as amended). The template materializer, which writes every leaf array of an integer,
  floating-point, date or time type and the timestamps written as int64 or Int96, calls
  the column writer in dense mode (\<open>WriteBatch\<close>) exactly when the schema node is required
  or the array's null count is 0, and in spaced mode (\<open>WriteBatchSpaced\<close>, with the
  validity bitmap and the array offset) otherwise; so does the timestamp coercion. This is
  for a values buffer that covers the slots of the array and, in the instances that ask
  for a scratch buffer of \<open>num_levels\<close> entries, for no more slots than levels. Boolean
  leaf arrays are written in dense mode always: the values of the slots that are not null
  are copied into the value buffer, in order, and the node and the null count are not
  looked at. Binary, string, fixed-size binary, decimal and null leaf arrays are written in
  dense mode always.
\<close>

theorem materializer_modes:
  "(array_offset d + array_length d \<le> length raw
      \<and> (request = Request_num_levels \<longrightarrow> array_length d \<le> num_levels) \<longrightarrow>
      TypedWriteBatch request convert is_required d (Some raw) num_levels def_levels rep_levels
      = Inr (if is_required \<or> null_count d = 0
             then WriteBatch num_levels def_levels rep_levels
                    (map convert (take (array_length d) (drop (array_offset d) raw)))
             else WriteBatchSpaced num_levels def_levels rep_levels
                    (null_bitmap_data d) (array_offset d)
                    (map convert (take (array_length d) (drop (array_offset d) raw)))))
   \<and> (WriteTimestampsCoerce is_required p st d raw64 num_levels def_levels rep_levels = Inr tcall \<longrightarrow>
        (is_dense tcall \<longleftrightarrow> is_required \<or> null_count d = 0)
        \<and> (\<not> is_dense tcall \<longrightarrow>
             tcall = WriteBatchSpaced num_levels def_levels rep_levels
                       (null_bitmap_data d) (array_offset d) (batch_values tcall)))
   \<and> (int (array_offset d) + int (array_length d) \<le> 8 * int (length bits) \<longrightarrow>
        TypedWriteBatch_Boolean d (Some bits) num_levels def_levels rep_levels
        = Inr (WriteBatch num_levels def_levels rep_levels
                 (map (\<lambda>k. bit (bits ! ((array_offset d + k) div 8)) ((array_offset d + k) mod 8))
                    (filter (\<lambda>k. \<not> IsNull d k) [0..<array_length d]))))
   \<and> (TypedWriteBatch_Binary is_required d raw_value_offsets value_data num_levels
          def_levels rep_levels = Inr bcall \<longrightarrow> is_dense bcall)
   \<and> (TypedWriteBatch_FixedSizeBinary is_required byte_width d raw8 num_levels
          def_levels rep_levels = Inr fcall \<longrightarrow> is_dense fcall)
   \<and> (TypedWriteBatch_Null num_levels def_levels rep_levels = Inr (ncall :: 'n writer_call)
         \<longrightarrow> is_dense ncall)
   \<and> (TypedWriteBatch_Decimal128 is_required width precision d raw128 num_levels
          def_levels rep_levels = Inr dcall \<longrightarrow> is_dense dcall)"
proof -
  have generic: "array_offset d + array_length d \<le> length raw
      \<and> (request = Request_num_levels \<longrightarrow> array_length d \<le> num_levels) \<longrightarrow>
      TypedWriteBatch request convert is_required d (Some raw) num_levels def_levels rep_levels
      = Inr (if is_required \<or> null_count d = 0
             then WriteBatch num_levels def_levels rep_levels
                    (map convert (take (array_length d) (drop (array_offset d) raw)))
             else WriteBatchSpaced num_levels def_levels rep_levels
                    (null_bitmap_data d) (array_offset d)
                    (map convert (take (array_length d) (drop (array_offset d) raw))))"
    by (auto simp add: TypedWriteBatch_def WriteNonNullableBatch_def WriteNullableBatch_def Let_def)
  have boolean: "int (array_offset d) + int (array_length d) \<le> 8 * int (length bits) \<longrightarrow>
        TypedWriteBatch_Boolean d (Some bits) num_levels def_levels rep_levels
        = Inr (WriteBatch num_levels def_levels rep_levels
                 (map (\<lambda>k. bit (bits ! ((array_offset d + k) div 8)) ((array_offset d + k) mod 8))
                    (filter (\<lambda>k. \<not> IsNull d k) [0..<array_length d])))"
    by (simp add: TypedWriteBatch_Boolean_def boolean_buffer_result bindE_def)
  have binary: "TypedWriteBatch_Binary is_required d raw_value_offsets value_data num_levels
          def_levels rep_levels = Inr bcall \<longrightarrow> is_dense bcall"
    by (auto simp add: TypedWriteBatch_Binary_def Let_def split: if_splits)
  have fixed: "TypedWriteBatch_FixedSizeBinary is_required byte_width d raw8 num_levels
          def_levels rep_levels = Inr fcall \<longrightarrow> is_dense fcall"
    by (auto simp add: TypedWriteBatch_FixedSizeBinary_def split: if_splits)
  have null: "TypedWriteBatch_Null num_levels def_levels rep_levels = Inr ncall \<longrightarrow> is_dense ncall"
    by (auto simp add: TypedWriteBatch_Null_def)
  have decimal: "TypedWriteBatch_Decimal128 is_required width precision d raw128 num_levels
          def_levels rep_levels = Inr dcall \<longrightarrow> is_dense dcall"
    by (auto simp add: TypedWriteBatch_Decimal128_def Let_def bindE_def split: sum.splits)
  from generic boolean binary fixed null decimal
       WriteTimestampsCoerce_mode [of is_required p st d raw64 num_levels def_levels rep_levels tcall]
  show ?thesis by blast
qed

theorem materializer_modes_witness:
  "TypedWriteBatch Request_num_values (\<lambda>v. v) False
       \<lparr> array_length = 3, array_offset = 1, null_bitmap_data = Some [10], null_count = 1 \<rparr>
       (Some [7, 1, 0, 3 :: int]) 3 (Some [1, 0, 1]) None
     = Inr (WriteBatchSpaced 3 (Some [1, 0, 1]) None (Some [10]) 1 [1, 0, 3])
   \<and> TypedWriteBatch Request_num_levels (\<lambda>v. v) True
       \<lparr> array_length = 3, array_offset = 1, null_bitmap_data = Some [10], null_count = 1 \<rparr>
       (Some [7, 1, 0, 3 :: int]) 3 (Some [1, 0, 1]) None
     = Inr (WriteBatch 3 (Some [1, 0, 1]) None [1, 0, 3])
   \<and> TypedWriteBatch_Boolean
       \<lparr> array_length = 3, array_offset = 1, null_bitmap_data = Some [10], null_count = 1 \<rparr>
       (Some [2]) 3 (Some [1, 0, 1]) None
     = Inr (WriteBatch 3 (Some [1, 0, 1]) None [True, False])"
proof -
  let ?d = "\<lparr> array_length = 3, array_offset = 1, null_bitmap_data = Some [10], null_count = 1 \<rparr>"
  note optional = materializer_modes [where d = ?d and raw = "[7, 1, 0, 3 :: int]"
             and request = Request_num_values
             and convert = "\<lambda>v. v" and num_levels = 3 and def_levels = "Some [1, 0, 1]"
             and rep_levels = None and is_required = False, THEN conjunct1]
  note required = materializer_modes [where d = ?d and raw = "[7, 1, 0, 3 :: int]"
             and request = Request_num_levels
             and convert = "\<lambda>v. v" and num_levels = 3 and def_levels = "Some [1, 0, 1]"
             and rep_levels = None and is_required = True, THEN conjunct1]
  have vals: "array_offset ?d + array_length ?d \<le> length [7, 1, 0, 3 :: int]" by simp
  have bits: "int (array_offset ?d) + int (array_length ?d) \<le> 8 * int (length [2 :: 8 word])"
    by simp
  from optional vals
  have spaced: "TypedWriteBatch Request_num_values (\<lambda>v. v) False ?d (Some [7, 1, 0, 3 :: int]) 3 (Some [1, 0, 1]) None
     = Inr (WriteBatchSpaced 3 (Some [1, 0, 1]) None (Some [10]) 1 [1, 0, 3])"
    by simp
  from required vals
  have dense: "TypedWriteBatch Request_num_levels (\<lambda>v. v) True ?d (Some [7, 1, 0, 3 :: int]) 3 (Some [1, 0, 1]) None
     = Inr (WriteBatch 3 (Some [1, 0, 1]) None [1, 0, 3])"
    by simp
  have boolean: "TypedWriteBatch_Boolean ?d (Some [2]) 3 (Some [1, 0, 1]) None
     = Inr (WriteBatch 3 (Some [1, 0, 1]) None [True, False])"
    by code_simp
  from spaced dense boolean show ?thesis by simp
qed

text \<open>
  The claim C5 as stated fails on a boolean leaf array: with an optional node and an array
  of two slots of which the second is null (null count 1), the claim asks for the spaced
  mode, and the boolean materializer calls \<open>WriteBatch\<close>.
\<close>

theorem materializer_modes_counterexample:
  "null_count \<lparr> array_length = 2, array_offset = 0, null_bitmap_data = Some [1], null_count = 1 \<rparr> \<noteq> 0
   \<and> TypedWriteBatch_Boolean
       \<lparr> array_length = 2, array_offset = 0, null_bitmap_data = Some [1], null_count = 1 \<rparr>
       (Some [1]) 2 (Some [1, 0]) None
     = Inr (WriteBatch 2 (Some [1, 0]) None [True])
   \<and> is_dense (WriteBatch 2 (Some [1, 0]) None [True])"
  by code_simp

subsection \<open>Decimals\<close>

lemma min_bytes_enough: "(10 :: int) ^ precision \<le> 2 ^ (8 * min_bytes precision n - 1)"
proof (induction precision n rule: min_bytes.induct)
  case (1 precision n)
  show ?case
  proof (cases "(10 :: int) ^ precision \<le> 2 ^ (8 * n - 1)")
    case True
    then show ?thesis by (subst min_bytes.simps) simp
  next
    case False
    have "min_bytes precision n = min_bytes precision (n + 1)"
      by (subst min_bytes.simps) (use False in auto)
    with "1.IH" [OF False] show ?thesis by simp
  qed
qed

lemma min_bytes_ge: "n \<le> min_bytes precision n"
proof (induction precision n rule: min_bytes.induct)
  case (1 precision n)
  show ?case
  proof (cases "(10 :: int) ^ precision \<le> 2 ^ (8 * n - 1)")
    case True
    then show ?thesis by (subst min_bytes.simps) simp
  next
    case False
    have "min_bytes precision n = min_bytes precision (n + 1)"
      by (subst min_bytes.simps) (use False in auto)
    with "1.IH" [OF False] show ?thesis by simp
  qed
qed

lemma min_bytes_le:
  "n \<le> m \<Longrightarrow> (10 :: int) ^ precision \<le> 2 ^ (8 * m - 1) \<Longrightarrow> min_bytes precision n \<le> m"
proof (induction precision n rule: min_bytes.induct)
  case (1 precision n)
  show ?case
  proof (cases "(10 :: int) ^ precision \<le> 2 ^ (8 * n - 1)")
    case True
    then have "min_bytes precision n = n" by (subst min_bytes.simps) simp
    with "1.prems" show ?thesis by simp
  next
    case False
    have eq: "min_bytes precision n = min_bytes precision (n + 1)"
      by (subst min_bytes.simps) (use False in auto)
    from False "1.prems" have "n \<noteq> m" by auto
    with "1.prems" have "n + 1 \<le> m" by simp
    from "1.IH" [OF False this "1.prems"(2)] eq show ?thesis by simp
  qed
qed

lemma DecimalSize_bounds:
  assumes "precision \<le> 38"
  shows "1 \<le> DecimalSize precision" and "DecimalSize precision \<le> 16"
proof -
  show "1 \<le> DecimalSize precision"
    using min_bytes_ge [of 1 precision] by (simp add: DecimalSize_def)
  have "(10 :: int) ^ precision \<le> 10 ^ 38"
    using assms by (intro power_increasing) simp_all
  also have "\<dots> \<le> 2 ^ (8 * 16 - 1)" by simp
  finally have "min_bytes precision 1 \<le> 16" by (intro min_bytes_le) simp_all
  then show "DecimalSize precision \<le> 16" by (simp add: DecimalSize_def)
qed

lemma length_big_endian_bytes [simp]: "length (big_endian_bytes x) = 8"
  by (simp add: big_endian_bytes_def)

lemma limb_bytes_nth:
  assumes "m < 16"
  shows "(big_endian_bytes (limb1 v) @ big_endian_bytes (limb0 v)) ! m
         = (ucast (drop_bit (8 * (15 - m)) v) :: 8 word)"
proof (cases "m < 8")
  case True
  then have "(big_endian_bytes (limb1 v) @ big_endian_bytes (limb0 v)) ! m
             = ucast (drop_bit (8 * (7 - m)) (limb1 v))"
    by (simp add: big_endian_bytes_def nth_append)
  also have "\<dots> = (ucast (drop_bit (8 * (15 - m)) v) :: 8 word)"
  proof (rule bit_word_eqI)
    fix i assume "i < LENGTH(8)"
    then have i: "i < 8" by simp
    define j where "j = 7 - m"
    with True have e: "15 - m = j + 8" by simp
    from True i have "8 * j + i < 64" by (simp add: j_def)
    then show "bit (ucast (drop_bit (8 * (7 - m)) (limb1 v)) :: 8 word) i
          = bit (ucast (drop_bit (8 * (15 - m)) v) :: 8 word) i"
      using i unfolding j_def [symmetric] e by (simp add: limb1_def bit_simps add.assoc add.commute add.left_commute)
  qed
  finally show ?thesis .
next
  case False
  with assms have "m - 8 < 8" by simp
  with False have "(big_endian_bytes (limb1 v) @ big_endian_bytes (limb0 v)) ! m
             = ucast (drop_bit (8 * (7 - (m - 8))) (limb0 v))"
    by (simp add: nth_append) (simp add: big_endian_bytes_def)
  also have "\<dots> = (ucast (drop_bit (8 * (15 - m)) v) :: 8 word)"
  proof (rule bit_word_eqI)
    fix i assume "i < LENGTH(8)"
    then have i: "i < 8" by simp
    from False assms have e: "7 - (m - 8) = 15 - m" by simp
    from False assms i have "8 * (15 - m) + i < 64" by simp
    then show "bit (ucast (drop_bit (8 * (7 - (m - 8))) (limb0 v)) :: 8 word) i
          = bit (ucast (drop_bit (8 * (15 - m)) v) :: 8 word) i"
      using i by (simp add: e limb0_def bit_simps)
  qed
  finally show ?thesis .
qed

lemma decimal_bytes:
  assumes "n \<le> 16"
  shows "drop (16 - n) (big_endian_bytes (limb1 v) @ big_endian_bytes (limb0 v))
         = twos_complement_big_endian n (sint v)"
proof (rule nth_equalityI)
  show "length (drop (16 - n) (big_endian_bytes (limb1 v) @ big_endian_bytes (limb0 v)))
        = length (twos_complement_big_endian n (sint v))"
    using assms by (simp add: twos_complement_big_endian_def)
next
  fix k
  assume "k < length (drop (16 - n) (big_endian_bytes (limb1 v) @ big_endian_bytes (limb0 v)))"
  with assms have k: "k < n" by simp
  with assms have m: "16 - n + k < 16" and e: "15 - (16 - n + k) = n - 1 - k" by simp_all
  have "drop (16 - n) (big_endian_bytes (limb1 v) @ big_endian_bytes (limb0 v)) ! k
        = (big_endian_bytes (limb1 v) @ big_endian_bytes (limb0 v)) ! (16 - n + k)"
    by (rule nth_drop) simp
  also have "\<dots> = (ucast (drop_bit (8 * (n - 1 - k)) v) :: 8 word)"
    using limb_bytes_nth [OF m, of v] by (simp add: e)
  also have "\<dots> = word_of_int (drop_bit (8 * (n - 1 - k)) (sint v))"
  proof (rule bit_word_eqI)
    fix i assume "i < LENGTH(8)"
    then have i: "i < 8" by simp
    from k assms i have "8 * (n - 1 - k) + i < 128" by simp
    then show "bit (ucast (drop_bit (8 * (n - 1 - k)) v) :: 8 word) i
          = bit (word_of_int (drop_bit (8 * (n - 1 - k)) (sint v)) :: 8 word) i"
      using i by (simp add: bit_simps bit_sint_iff)
  qed
  also have "\<dots> = twos_complement_big_endian n (sint v) ! k"
    using k by (simp add: twos_complement_big_endian_def)
  finally show "drop (16 - n) (big_endian_bytes (limb1 v) @ big_endian_bytes (limb0 v)) ! k
        = twos_complement_big_endian n (sint v) ! k" .
qed


lemma take_bit_byte_more:
  fixes x :: int
  shows "take_bit 8 (drop_bit m x) * 2 ^ m + take_bit m x = take_bit (m + 8) x"
proof -
  have "take_bit (m + 8) x = concat_bit m x (take_bit 8 (drop_bit m x))"
    by (rule bit_eqI) (auto simp add: bit_simps)
  also have "\<dots> = take_bit m x + push_bit m (take_bit 8 (drop_bit m x))"
    by (simp add: concat_bit_eq)
  finally show ?thesis by (simp add: push_bit_eq_mult)
qed

lemma twos_complement_big_endian_Suc:
  "twos_complement_big_endian (Suc n) x
   = word_of_int (drop_bit (8 * n) x) # twos_complement_big_endian n x"
  by (simp add: twos_complement_big_endian_def map_upt_Suc del: upt_Suc)

lemma length_twos_complement_big_endian [simp]:
  "length (twos_complement_big_endian n x) = n"
  by (simp add: twos_complement_big_endian_def)

lemma big_endian_unsigned_twos_complement:
  "big_endian_unsigned (twos_complement_big_endian n x) = take_bit (8 * n) x"
proof (induction n)
  case 0
  show ?case by (simp add: twos_complement_big_endian_def)
next
  case (Suc n)
  have "(256 :: int) ^ n = 2 ^ (8 * n)" by (simp add: power_mult)
  then have "big_endian_unsigned (twos_complement_big_endian (Suc n) x)
        = take_bit 8 (drop_bit (8 * n) x) * 2 ^ (8 * n) + take_bit (8 * n) x"
    by (simp add: twos_complement_big_endian_Suc Suc.IH uint_word_of_int_eq)
  also have "\<dots> = take_bit (8 * n + 8) x" by (rule take_bit_byte_more)
  finally show ?case by (simp add: add.commute)
qed

lemma big_endian_signed_twos_complement:
  assumes "0 < n" and "- (2 ^ (8 * n - 1)) \<le> x" and "x < 2 ^ (8 * n - 1)"
  shows "big_endian_signed (twos_complement_big_endian n x) = x"
proof -
  have "big_endian_signed (twos_complement_big_endian n x)
        = signed_take_bit (8 * n - 1) (take_bit (8 * n) x)"
    by (simp add: big_endian_signed_def big_endian_unsigned_twos_complement)
  also have "\<dots> = signed_take_bit (8 * n - 1) x"
  proof -
    from assms(1) have "\<not> 8 * n \<le> 8 * n - 1" by simp
    then show ?thesis by (simp only: signed_take_bit_take_bit if_False)
  qed
  also have "\<dots> = x"
    using assms(2,3) by (rule signed_take_bit_int_eq_self)
  finally show ?thesis .
qed


lemma decimal_buffer_result:
  assumes cover: "array_offset d + array_length d \<le> length raw"
    and off: "0 \<le> offset" "offset \<le> 16"
    and room: "j + 2 * length (filter (\<lambda>k. nn \<or> \<not> IsNull d k) [i..<array_length d])
               \<le> valid_value_count d"
    and entries: "length buffer + length (filter (\<lambda>k. nn \<or> \<not> IsNull d k) [i..<array_length d])
                  \<le> n"
  shows "decimal_buffer nn d raw n offset i j bev buffer
         = Inr (buffer @ map (\<lambda>k. drop (nat offset)
                                    (big_endian_bytes (limb1 (raw ! (array_offset d + k)))
                                     @ big_endian_bytes (limb0 (raw ! (array_offset d + k)))))
                           (filter (\<lambda>k. nn \<or> \<not> IsNull d k) [i..<array_length d]))"
  using cover off room entries
proof (induction nn d raw n offset i j bev buffer rule: decimal_buffer.induct)
  case (1 nn d raw n offset i j bev buffer)
  note cover = "1.prems"(1) and off = "1.prems"(2,3) and room = "1.prems"(4)
    and entries = "1.prems"(5)
  show ?case
  proof (cases "i < array_length d")
    case False
    then show ?thesis by (subst decimal_buffer.simps) simp
  next
    case True
    then have upt: "[i..<array_length d] = i # [i + 1..<array_length d]"
      by (simp add: upt_conv_Cons)
    show ?thesis
    proof (cases "nn \<or> \<not> IsNull d i")
      case P: True
      from room P have room2:
        "j + 2 + 2 * length (filter (\<lambda>k. nn \<or> \<not> IsNull d k) [i + 1..<array_length d])
         \<le> valid_value_count d"
        by (auto simp add: upt)
      then have j2: "\<not> valid_value_count d < j + 2" by simp
      from entries P have entries2:
        "length (buffer @ [drop (nat offset)
                             (big_endian_bytes (limb1 (raw ! (array_offset d + i)))
                              @ big_endian_bytes (limb0 (raw ! (array_offset d + i))))])
         + length (filter (\<lambda>k. nn \<or> \<not> IsNull d k) [i + 1..<array_length d]) \<le> n"
        by (auto simp add: upt)
      then have e2: "\<not> n \<le> length buffer" by simp
      from True cover have inb: "\<not> length raw \<le> array_offset d + i" by simp
      from inb j2 off e2 have guard:
        "\<not> (length raw \<le> array_offset d + i \<or> valid_value_count d < j + 2
            \<or> offset < 0 \<or> 16 < offset \<or> n \<le> length buffer)"
        by simp
      have "decimal_buffer nn d raw n offset i j bev buffer
            = decimal_buffer nn d raw n offset (i + 1) (j + 2)
                (bev[j := limb1 (raw ! (array_offset d + i)),
                     j + 1 := limb0 (raw ! (array_offset d + i))])
                (buffer @ [drop (nat offset)
                             (big_endian_bytes (limb1 (raw ! (array_offset d + i)))
                              @ big_endian_bytes (limb0 (raw ! (array_offset d + i))))])"
        by (subst decimal_buffer.simps) (use True P guard in simp)
      also note "1.IH"(1) [OF True P guard cover off room2 entries2]
      finally show ?thesis using P by (simp add: upt)
    next
      case notP: False
      from room notP have room2:
        "j + 2 * length (filter (\<lambda>k. nn \<or> \<not> IsNull d k) [i + 1..<array_length d])
         \<le> valid_value_count d"
        by (simp add: upt)
      from entries notP have entries2:
        "length buffer + length (filter (\<lambda>k. nn \<or> \<not> IsNull d k) [i + 1..<array_length d]) \<le> n"
        by (simp add: upt)
      have "decimal_buffer nn d raw n offset i j bev buffer
            = decimal_buffer nn d raw n offset (i + 1) j bev buffer"
        by (subst decimal_buffer.simps) (use True notP in simp)
      also note "1.IH"(2) [OF True notP cover off room2 entries2]
      finally show ?thesis using notP by (simp add: upt)
    qed
  qed
qed

lemma count_not_null:
  assumes "well_formed d"
  shows "length (filter (\<lambda>k. \<not> IsNull d k) [0..<array_length d]) = array_length d - null_count d"
proof -
  let ?n = "array_length d"
  have nulls: "null_count d = length (filter (\<lambda>k. IsNull d k) [0..<?n])"
  proof (cases "null_bitmap_data d")
    case None
    with assms show ?thesis by (simp add: well_formed_def count_nulls_def IsNull_def IsValid_def)
  next
    case (Some bits)
    with assms show ?thesis by (simp add: well_formed_def count_nulls_def IsNull_def IsValid_def)
  qed
  from sum_length_filter_compl [of "\<lambda>k. IsNull d k" "[0..<?n]"]
  have "length (filter (\<lambda>k. IsNull d k) [0..<?n]) + length (filter (\<lambda>k. \<not> IsNull d k) [0..<?n]) = ?n"
    by simp
  with nulls show ?thesis by simp
qed

text \<open>
  C6. For every decimal128 array that satisfies the array invariant and has no more slots
  than there are levels, with a precision \<open>p\<close> of at most 38 digits and no nulls under a
  required node: the materializer calls
  \<open>WriteBatch\<close> with one byte sequence per slot that is not null, and the sequence of a
  value \<open>d\<close> is the big-endian two's-complement representation of \<open>d\<close> in
  \<open>DecimalSize(p)\<close> bytes, the bytes of the big-endian limb pair from
  \<open>byte_width - DecimalSize(p)\<close> on. It has the length \<open>DecimalSize(p)\<close>, and read back
  as a signed number it is \<open>d\<close> for every \<open>d\<close> of at most \<open>p\<close> digits. The value
  123456789 at precision 9 gives the four bytes 07 5B CD 15.
\<close>

theorem TypedWriteBatch_Decimal128_big_endian:
  assumes wf: "well_formed d"
    and cover: "array_offset d + array_length d \<le> length raw"
    and prec: "precision \<le> 38"
    and req: "is_required \<longrightarrow> null_count d = 0"
    and levels: "array_length d \<le> num_levels"
  shows "TypedWriteBatch_Decimal128 is_required 16 precision d raw num_levels def_levels rep_levels
         = Inr (WriteBatch num_levels def_levels rep_levels
                  (map (\<lambda>i. twos_complement_big_endian (nat (DecimalSize precision))
                               (sint (raw ! (array_offset d + i))))
                     (filter (\<lambda>i. \<not> IsNull d i) [0..<array_length d])))
         \<and> (\<forall>v :: 128 word.
               length (twos_complement_big_endian (nat (DecimalSize precision)) (sint v))
                 = nat (DecimalSize precision)
               \<and> (- (10 ^ precision) < sint v \<and> sint v < 10 ^ precision \<longrightarrow>
                    big_endian_signed
                      (twos_complement_big_endian (nat (DecimalSize precision)) (sint v))
                    = sint v))
         \<and> TypedWriteBatch_Decimal128 False 16 9
             \<lparr> array_length = 1, array_offset = 0, null_bitmap_data = None, null_count = 0 \<rparr>
             [123456789] 1 None None
           = Inr (WriteBatch 1 None None [[0x07, 0x5B, 0xCD, 0x15]])"
proof -
  let ?n = "array_length d"
  let ?size = "nat (DecimalSize precision)"
  let ?nn = "is_required \<or> null_count d = 0"
  note b = DecimalSize_bounds [OF prec]
  from b have off: "0 \<le> 16 - DecimalSize precision" "16 - DecimalSize precision \<le> 16"
    and drop_eq: "nat (16 - DecimalSize precision) = 16 - ?size" and size16: "?size \<le> 16"
    by simp_all
  have same: "filter (\<lambda>k. ?nn \<or> \<not> IsNull d k) [0..<?n] = filter (\<lambda>k. \<not> IsNull d k) [0..<?n]"
  proof (cases ?nn)
    case False
    then show ?thesis by simp
  next
    case True
    with req have "null_count d = 0" by auto
    with count_not_null [OF wf]
    have "length (filter (\<lambda>k. \<not> IsNull d k) [0..<?n]) = length [0..<?n]" by simp
    from filter_all [OF this] have "\<And>k. k \<in> set [0..<?n] \<Longrightarrow> \<not> IsNull d k" .
    then show ?thesis by (intro filter_cong) auto
  qed
  have "length (filter (\<lambda>k. ?nn \<or> \<not> IsNull d k) [0..<?n]) = ?n - null_count d"
    unfolding same by (rule count_not_null [OF wf])
  then have room: "0 + 2 * length (filter (\<lambda>k. ?nn \<or> \<not> IsNull d k) [0..<?n]) \<le> valid_value_count d"
    by (simp only: valid_value_count_def)
  have "length (filter (\<lambda>k. ?nn \<or> \<not> IsNull d k) [0..<?n]) \<le> length [0..<?n]"
    by (rule length_filter_le)
  with levels have entries:
    "length ([] :: 8 word list list) + length (filter (\<lambda>k. ?nn \<or> \<not> IsNull d k) [0..<?n])
     \<le> num_levels"
    by simp
  have "decimal_buffer ?nn d raw num_levels (16 - DecimalSize precision) 0 0
          (replicate (valid_value_count d) 0) []
        = Inr ([] @ map (\<lambda>k. drop (nat (16 - DecimalSize precision))
                                    (big_endian_bytes (limb1 (raw ! (array_offset d + k)))
                                     @ big_endian_bytes (limb0 (raw ! (array_offset d + k)))))
                           (filter (\<lambda>k. ?nn \<or> \<not> IsNull d k) [0..<?n]))"
    by (rule decimal_buffer_result [OF cover off room entries])
  then have loop: "decimal_buffer ?nn d raw num_levels (16 - DecimalSize precision) 0 0
          (replicate (valid_value_count d) 0) []
        = Inr (map (\<lambda>i. twos_complement_big_endian ?size (sint (raw ! (array_offset d + i))))
                 (filter (\<lambda>i. \<not> IsNull d i) [0..<?n]))"
    by (simp only: same drop_eq append_Nil decimal_bytes [OF size16])
  have first: "TypedWriteBatch_Decimal128 is_required 16 precision d raw num_levels def_levels rep_levels
         = Inr (WriteBatch num_levels def_levels rep_levels
                  (map (\<lambda>i. twos_complement_big_endian ?size (sint (raw ! (array_offset d + i))))
                     (filter (\<lambda>i. \<not> IsNull d i) [0..<?n])))"
    unfolding TypedWriteBatch_Decimal128_def Let_def loop by (simp add: bindE_def)
  have second: "big_endian_signed (twos_complement_big_endian ?size (sint v)) = sint v"
    if "- (10 ^ precision) < sint v" "sint v < 10 ^ precision" for v :: "128 word"
  proof -
    from b have pos: "0 < ?size" by simp
    have enough: "(10 :: int) ^ precision \<le> 2 ^ (8 * ?size - 1)"
      using min_bytes_enough [of precision 1] by (simp add: DecimalSize_def)
    show ?thesis
      by (rule big_endian_signed_twos_complement [OF pos]) (use that enough in simp_all)
  qed
  have third: "TypedWriteBatch_Decimal128 False 16 9
             \<lparr> array_length = 1, array_offset = 0, null_bitmap_data = None, null_count = 0 \<rparr>
             [123456789] 1 None None
           = Inr (WriteBatch 1 None None [[0x07, 0x5B, 0xCD, 0x15]])"
    by code_simp
  from first second third show ?thesis by simp
qed

theorem TypedWriteBatch_Decimal128_big_endian_witness:
  "TypedWriteBatch_Decimal128 False 16 9
       \<lparr> array_length = 2, array_offset = 1, null_bitmap_data = Some [4], null_count = 1 \<rparr>
       [5, 6, - 2] 2 (Some [0, 1]) None
     = Inr (WriteBatch 2 (Some [0, 1]) None [[255, 255, 255, 254]])
   \<and> DecimalSize 9 = 4
   \<and> big_endian_signed [255, 255, 255, 254] = - 2
   \<and> big_endian_signed [0x07, 0x5B, 0xCD, 0x15] = 123456789"
proof -
  let ?d = "\<lparr> array_length = 2, array_offset = 1, null_bitmap_data = Some [4], null_count = 1 \<rparr>"
  have wf: "well_formed ?d" by code_simp
  have cover: "array_offset ?d + array_length ?d \<le> length [5, 6, - 2 :: 128 word]" by simp
  have size: "DecimalSize 9 = 4" by code_simp
  have slots: "filter (\<lambda>i. \<not> IsNull ?d i) [0..<array_length ?d] = [1]" by code_simp
  have levels: "array_length ?d \<le> 2" by simp
  note t = TypedWriteBatch_Decimal128_big_endian
             [OF wf cover _ _ levels, where precision = 9 and is_required = False
                and def_levels = "Some [0, 1]" and rep_levels = None]
  have enc: "twos_complement_big_endian 4 (- 2) = [255, 255, 255, 254]" by code_simp
  from t have "TypedWriteBatch_Decimal128 False 16 9 ?d [5, 6, - 2] 2 (Some [0, 1]) None
     = Inr (WriteBatch 2 (Some [0, 1]) None
              (map (\<lambda>i. twos_complement_big_endian (nat (DecimalSize 9))
                           (sint ([5, 6, - 2 :: 128 word] ! (array_offset ?d + i))))
                 (filter (\<lambda>i. \<not> IsNull ?d i) [0..<array_length ?d])))"
    by simp
  then have first: "TypedWriteBatch_Decimal128 False 16 9 ?d [5, 6, - 2] 2 (Some [0, 1]) None
     = Inr (WriteBatch 2 (Some [0, 1]) None [[255, 255, 255, 254]])"
    by (simp only: slots size) (simp add: enc)
  from t have "\<forall>v :: 128 word. - (10 ^ 9) < sint v \<and> sint v < 10 ^ 9 \<longrightarrow>
      big_endian_signed (twos_complement_big_endian (nat (DecimalSize 9)) (sint v)) = sint v"
    by simp
  from this [rule_format, of "- 2"] this [rule_format, of 123456789]
  have "big_endian_signed (twos_complement_big_endian 4 (- 2)) = - 2"
    and "big_endian_signed (twos_complement_big_endian 4 123456789) = 123456789"
    by (simp_all add: size)
  moreover have "twos_complement_big_endian 4 123456789 = [0x07, 0x5B, 0xCD, 0x15]" by code_simp
  ultimately have "big_endian_signed [255, 255, 255, 254] = - 2"
    and "big_endian_signed [0x07, 0x5B, 0xCD, 0x15] = 123456789"
    by (simp_all add: enc)
  with first size show ?thesis by simp
qed

end
